theory Spec2Isabelle
  imports Main "HOL-Library.AList" "HOL-Library.Char_ord" "HOL-Library.List_Lexorder"
begin

section \<open>Python strings\<close>

text \<open>
  A Python \<open>str\<close> is modelled as a \<open>string\<close> (a list of 8-bit characters). The
  model is exact for ASCII text; characters from 128 on are never whitespace and have
  no lower case here.
\<close>

abbreviation nl :: char where
  "nl \<equiv> CHR 0x0A"

abbreviation backslash :: char where
  "backslash \<equiv> CHR 0x5C"

abbreviation backquote :: char where
  "backquote \<equiv> CHR 0x60"

text \<open>\<open>str.isspace\<close> on one ASCII character: TAB, LF, VT, FF, CR, FS, GS, RS, US, space.\<close>

definition isspace :: "char \<Rightarrow> bool" where
  "isspace c = (let n = (of_char c :: nat) in (9 \<le> n \<and> n \<le> 13) \<or> (28 \<le> n \<and> n \<le> 32))"

text \<open>\<open>s.lstrip(chars)\<close>, \<open>s.rstrip(chars)\<close>, \<open>s.strip(chars)\<close> for a set of characters
  given as a predicate, and \<open>s.strip()\<close> for whitespace.\<close>

definition lstrip_by :: "(char \<Rightarrow> bool) \<Rightarrow> string \<Rightarrow> string" where
  "lstrip_by P s = dropWhile P s"

definition rstrip_by :: "(char \<Rightarrow> bool) \<Rightarrow> string \<Rightarrow> string" where
  "rstrip_by P s = rev (dropWhile P (rev s))"

definition strip_by :: "(char \<Rightarrow> bool) \<Rightarrow> string \<Rightarrow> string" where
  "strip_by P s = rstrip_by P (lstrip_by P s)"

definition strip :: "string \<Rightarrow> string" where
  "strip s = strip_by isspace s"

text \<open>\<open>s.replace(c, "")\<close> for a pattern \<open>c\<close> of one character.\<close>

definition remove_char :: "char \<Rightarrow> string \<Rightarrow> string" where
  "remove_char c s = filter (\<lambda>x. x \<noteq> c) s"

text \<open>\<open>s.lower()\<close> on ASCII.\<close>

definition lower_char :: "char \<Rightarrow> char" where
  "lower_char c = (let n = (of_char c :: nat) in if 65 \<le> n \<and> n \<le> 90 then char_of (n + 32) else c)"

definition lower :: "string \<Rightarrow> string" where
  "lower s = map lower_char s"

text \<open>\<open>s.startswith(p)\<close>, \<open>s.endswith(p)\<close> and the substring test \<open>p in s\<close>.\<close>

definition startswith :: "string \<Rightarrow> string \<Rightarrow> bool" where
  "startswith s p = (take (length p) s = p)"

definition endswith :: "string \<Rightarrow> string \<Rightarrow> bool" where
  "endswith s p = (length p \<le> length s \<and> drop (length s - length p) s = p)"

fun str_in :: "string \<Rightarrow> string \<Rightarrow> bool" where
  "str_in p [] = (p = [])"
| "str_in p (c # cs) = (startswith (c # cs) p \<or> str_in p cs)"

text \<open>\<open>s.split(sep)\<close> for a separator of one character, and \<open>sep.join(xs)\<close>.\<close>

fun split_on :: "char \<Rightarrow> string \<Rightarrow> string list" where
  "split_on sep [] = [[]]"
| "split_on sep (c # cs) =
     (if c = sep then [] # split_on sep cs
      else (case split_on sep cs of [] \<Rightarrow> [[c]] | l # ls \<Rightarrow> (c # l) # ls))"

fun join_with :: "string \<Rightarrow> string list \<Rightarrow> string" where
  "join_with sep [] = []"
| "join_with sep [x] = x"
| "join_with sep (x # y # ys) = x @ sep @ join_with sep (y # ys)"


section \<open>Input sanitising\<close>

text \<open>
  \<^verbatim>\<open>
  def sanitize_input(value: str) -> str:
      if not value:
          return ""
      dangerous_chars = [";", "&", "|", "$", "`", "(", ")", "{", "}", "<", ">", "\\"]
      for char in dangerous_chars:
          value = value.replace(char, "")
      return value.strip()
  \<close>
\<close>

definition dangerous_chars :: "char list" where
  "dangerous_chars =
     [CHR '';'', CHR ''&'', CHR ''|'', CHR ''$'', backquote, CHR ''('', CHR '')'',
      CHR ''{'', CHR ''}'', CHR ''<'', CHR ''>'', backslash]"

definition sanitize_input :: "string \<Rightarrow> string" where
  "sanitize_input v = (if v = [] then [] else strip (fold remove_char dangerous_chars v))"

section \<open>Summarising the engine's output\<close>

text \<open>
  \<^verbatim>\<open>
  def parse_ansible_output(raw_output: str) -> str:
      lines = raw_output.split("\n")
      summary_lines = []
      in_play_recap = False
      for line in lines:
          if "PLAY RECAP" in line:
              in_play_recap = True
          if in_play_recap:
              summary_lines.append(line)
          elif "fatal:" in line.lower() or "failed:" in line.lower():
              summary_lines.append(line)
          elif "changed:" in line.lower() and "ok=" not in line.lower():
              summary_lines.append(line)
      if summary_lines:
          return "=== SUMMARY ===\n" + "\n".join(summary_lines)
                 + "\n\n=== FULL OUTPUT ===\n" + raw_output
      return raw_output
  \<close>
  The loop body is \<open>summary_step\<close>, on the pair of \<open>summary_lines\<close> and
  \<open>in_play_recap\<close>.
\<close>

definition summary_step :: "string \<Rightarrow> string list \<times> bool \<Rightarrow> string list \<times> bool" where
  "summary_step line st =
     (let summary_lines = fst st;
          in_play_recap = (if str_in ''PLAY RECAP'' line then True else snd st)
      in if in_play_recap then (summary_lines @ [line], in_play_recap)
         else if str_in ''fatal:'' (lower line) \<or> str_in ''failed:'' (lower line)
           then (summary_lines @ [line], in_play_recap)
         else if str_in ''changed:'' (lower line) \<and> \<not> str_in ''ok='' (lower line)
           then (summary_lines @ [line], in_play_recap)
         else (summary_lines, in_play_recap))"

definition parse_ansible_output :: "string \<Rightarrow> string" where
  "parse_ansible_output raw_output =
     (let lines = split_on nl raw_output;
          summary_lines = fst (fold summary_step lines ([], False))
      in if summary_lines \<noteq> []
         then ''=== SUMMARY ==='' @ [nl] @ join_with [nl] summary_lines
              @ [nl, nl] @ ''=== FULL OUTPUT ==='' @ [nl] @ raw_output
         else raw_output)"

text \<open>
  The summary as the specification words it: a line is actionable when it holds a
  failure marker, or a change marker and no no-op marker (both case-insensitive);
  the kept lines are the actionable lines before the first recap line, then
  everything from that line on.
\<close>

definition has_recap :: "string \<Rightarrow> bool" where
  "has_recap line = str_in ''PLAY RECAP'' line"

definition actionable :: "string \<Rightarrow> bool" where
  "actionable line =
     (str_in ''fatal:'' (lower line) \<or> str_in ''failed:'' (lower line)
      \<or> (str_in ''changed:'' (lower line) \<and> \<not> str_in ''ok='' (lower line)))"

definition kept_lines :: "string list \<Rightarrow> string list" where
  "kept_lines ls =
     filter actionable (takeWhile (\<lambda>l. \<not> has_recap l) ls) @ dropWhile (\<lambda>l. \<not> has_recap l) ls"

section \<open>Paths\<close>

text \<open>
  \<open>os.path.join\<close> (two arguments), \<open>os.path.normpath\<close>, \<open>os.path.basename\<close> and
  \<open>os.path.dirname\<close> of Python's \<open>posixpath\<close>. \<open>normpath\<close> drops empty and \<open>.\<close>
  components and lets a \<open>..\<close> component cancel the component before it.
\<close>

definition path_join :: "string \<Rightarrow> string \<Rightarrow> string" where
  "path_join a b =
     (if startswith b ''/'' then b
      else if a = [] \<or> endswith a ''/'' then a @ b
      else a @ ''/'' @ b)"

definition norm_step :: "nat \<Rightarrow> string \<Rightarrow> string list \<Rightarrow> string list" where
  "norm_step initial_slashes component new_comps =
     (if component = [] \<or> component = ''.'' then new_comps
      else if component \<noteq> ''..'' \<or> (initial_slashes = 0 \<and> new_comps = [])
              \<or> (new_comps \<noteq> [] \<and> last new_comps = ''..'')
        then new_comps @ [component]
      else if new_comps \<noteq> [] then butlast new_comps
      else new_comps)"

definition initial_slashes :: "string \<Rightarrow> nat" where
  "initial_slashes path =
     (if startswith path ''/''
      then (if startswith path ''//'' \<and> \<not> startswith path ''///'' then 2 else 1)
      else 0)"

definition normpath :: "string \<Rightarrow> string" where
  "normpath path =
     (if path = [] then ''.''
      else
        let comps = split_on CHR ''/'' path;
            new_comps = fold (norm_step (initial_slashes path)) comps [];
            p = replicate (initial_slashes path) CHR ''/'' @ join_with ''/'' new_comps
        in if p = [] then ''.'' else p)"

definition basename :: "string \<Rightarrow> string" where
  "basename p = rev (takeWhile (\<lambda>c. c \<noteq> CHR ''/'') (rev p))"

definition dirname :: "string \<Rightarrow> string" where
  "dirname p =
     (let head = rev (dropWhile (\<lambda>c. c \<noteq> CHR ''/'') (rev p))
      in if head \<noteq> [] \<and> head \<noteq> replicate (length head) CHR ''/''
         then rstrip_by (\<lambda>c. c = CHR ''/'') head
         else head)"

text \<open>
  \<^verbatim>\<open>
  def sanitize_filename(value: str) -> str:
      if not value:
          return ""
      safe = re.sub(r'[^a-zA-Z0-9_\-\.]', '_', value)
      return safe.strip('_.')

  def safe_path_join(base_dir: str, filename: str) -> str:
      filename = sanitize_filename(filename)
      full_path = os.path.normpath(os.path.join(base_dir, filename))
      if not full_path.startswith(os.path.normpath(base_dir)):
          raise ValueError("Path traversal detected")
      return full_path
  \<close>
\<close>

definition safe_char :: "char \<Rightarrow> bool" where
  "safe_char c =
     (let n = (of_char c :: nat)
      in (97 \<le> n \<and> n \<le> 122) \<or> (65 \<le> n \<and> n \<le> 90) \<or> (48 \<le> n \<and> n \<le> 57)
         \<or> c = CHR ''_'' \<or> c = CHR ''-'' \<or> c = CHR ''.'')"

definition sanitize_filename :: "string \<Rightarrow> string" where
  "sanitize_filename v =
     (if v = [] then []
      else strip_by (\<lambda>c. c = CHR ''_'' \<or> c = CHR ''.'')
             (map (\<lambda>c. if safe_char c then c else CHR ''_'') v))"

section \<open>Exceptions\<close>

text \<open>
  The Python exceptions the modelled code can meet, each with the text \<open>str(e)\<close>
  needs (a file name, or the message). All of them are subclasses of \<open>Exception\<close>, so an
  \<open>except Exception\<close> clause catches every one. A function that can raise returns
  \<open>exn + 'a\<close>, with \<open>Inl\<close> for the exception that leaves it.
\<close>

datatype exn =
    FileNotFoundError string
  | IsADirectoryError string
  | NotADirectoryError string
  | FileExistsError string
  | PermissionError string
  | SameFileError string
  | ValueError string
  | TimeoutExpired string
  | OtherException string

abbreviation quote :: char where
  "quote \<equiv> CHR 0x27"

definition str_exn :: "exn \<Rightarrow> string" where
  "str_exn e =
     (case e of
        FileNotFoundError f \<Rightarrow> ''[Errno 2] No such file or directory: '' @ [quote] @ f @ [quote]
      | IsADirectoryError f \<Rightarrow> ''[Errno 21] Is a directory: '' @ [quote] @ f @ [quote]
      | NotADirectoryError f \<Rightarrow> ''[Errno 20] Not a directory: '' @ [quote] @ f @ [quote]
      | FileExistsError f \<Rightarrow> ''[Errno 17] File exists: '' @ [quote] @ f @ [quote]
      | PermissionError f \<Rightarrow> ''[Errno 13] Permission denied: '' @ [quote] @ f @ [quote]
      | SameFileError m \<Rightarrow> m
      | ValueError m \<Rightarrow> m
      | TimeoutExpired m \<Rightarrow> m
      | OtherException m \<Rightarrow> m)"

definition safe_path_join :: "string \<Rightarrow> string \<Rightarrow> exn + string" where
  "safe_path_join base_dir filename =
     (let filename = sanitize_filename filename;
          full_path = normpath (path_join base_dir filename)
      in if \<not> startswith full_path (normpath base_dir)
         then Inl (ValueError ''Path traversal detected'')
         else Inr full_path)"

section \<open>The file store\<close>

text \<open>
  The files under the managed root: an association list from path strings to nodes,
  looked up with \<open>map_of\<close> (the first entry of a path counts). A path is identified
  with its string, which is exact for normalised absolute paths. The store has no
  permissions and no capacity limit.
\<close>

datatype node = File string | Dir

type_synonym store = "(string \<times> node) list"

definition path_exists :: "store \<Rightarrow> string \<Rightarrow> bool" where
  "path_exists fs p = (map_of fs p \<noteq> None)"

definition path_isdir :: "store \<Rightarrow> string \<Rightarrow> bool" where
  "path_isdir fs p = (map_of fs p = Some Dir)"

text \<open>Text-mode reading translates \<open>\r\n\<close> and \<open>\r\<close> to \<open>\n\<close> (universal newlines).\<close>

abbreviation cr :: char where
  "cr \<equiv> CHR 0x0D"

fun universal_newlines :: "string \<Rightarrow> string" where
  "universal_newlines [] = []"
| "universal_newlines [c] = [if c = cr then nl else c]"
| "universal_newlines (c # d # ds) =
     (if c = cr \<and> d = nl then nl # universal_newlines ds
      else if c = cr then nl # universal_newlines (d # ds)
      else c # universal_newlines (d # ds))"

text \<open>\<open>open(p, 'r').read()\<close>, \<open>open(p, 'w').write(c)\<close> and \<open>os.remove(p)\<close>.\<close>

definition read_text :: "store \<Rightarrow> string \<Rightarrow> exn + string" where
  "read_text fs p =
     (case map_of fs p of
        None \<Rightarrow> Inl (FileNotFoundError p)
      | Some Dir \<Rightarrow> Inl (IsADirectoryError p)
      | Some (File c) \<Rightarrow> Inr (universal_newlines c))"

text \<open>
  A new file can only be created in a directory that is there. A directory is present
  when the store lists it, or when a stored path lies directly in it (nothing exists
  without its directory); the working directory (the empty directory name) and the
  root are always present.
\<close>

definition dir_present :: "store \<Rightarrow> string \<Rightarrow> bool" where
  "dir_present fs d =
     (d = [] \<or> d = replicate (length d) CHR ''/'' \<or> path_isdir fs d
      \<or> (\<exists>q \<in> set (map fst fs). dirname q = d))"

definition write_text :: "store \<Rightarrow> string \<Rightarrow> string \<Rightarrow> exn + store" where
  "write_text fs p c =
     (case map_of fs p of
        Some Dir \<Rightarrow> Inl (IsADirectoryError p)
      | Some (File old) \<Rightarrow> Inr (AList.update p (File c) fs)
      | None \<Rightarrow>
          if dir_present fs (dirname p) then Inr (AList.update p (File c) fs)
          else (case map_of fs (dirname p) of
                  Some (File x) \<Rightarrow> Inl (NotADirectoryError p)
                | _ \<Rightarrow> Inl (FileNotFoundError p)))"

definition os_remove :: "store \<Rightarrow> string \<Rightarrow> exn + store" where
  "os_remove fs p =
     (case map_of fs p of
        None \<Rightarrow> Inl (FileNotFoundError p)
      | Some Dir \<Rightarrow> Inl (IsADirectoryError p)
      | Some (File c) \<Rightarrow> Inr (AList.delete p fs))"

text \<open>
  \<open>shutil.copy2(src, dst)\<close>: a destination that is a directory receives the file under
  the source's base name; the bytes are copied as they are.
\<close>

definition copy2 :: "store \<Rightarrow> string \<Rightarrow> string \<Rightarrow> exn + store" where
  "copy2 fs src dst =
     (let dst = (if path_isdir fs dst then path_join dst (basename src) else dst)
      in case map_of fs src of
           None \<Rightarrow> Inl (FileNotFoundError src)
         | Some Dir \<Rightarrow> Inl (IsADirectoryError src)
         | Some (File c) \<Rightarrow>
             if src = dst
             then Inl (SameFileError ([quote] @ src @ [quote] @ '' and '' @ [quote] @ dst @ [quote]
                                      @ '' are the same file''))
             else write_text fs dst c)"

text \<open>
  \<open>os.makedirs(d, exist_ok=True)\<close>: every missing directory on the way to \<open>d\<close> is
  created, outermost first; a file in the way is an error.
\<close>

definition ancestors :: "string \<Rightarrow> string list" where
  "ancestors d =
     (let comps = split_on CHR ''/'' d
      in filter (\<lambda>a. a \<noteq> []) (map (\<lambda>k. join_with ''/'' (take k comps)) [1..<Suc (length comps)]))"

fun mkdir_all :: "store \<Rightarrow> string list \<Rightarrow> exn + store" where
  "mkdir_all fs [] = Inr fs"
| "mkdir_all fs (a # as) =
     (case map_of fs a of
        None \<Rightarrow> mkdir_all (AList.update a Dir fs) as
      | Some Dir \<Rightarrow> mkdir_all fs as
      | Some (File c) \<Rightarrow> Inl (if as = [] then FileExistsError a else NotADirectoryError (hd as)))"

definition makedirs :: "store \<Rightarrow> string \<Rightarrow> exn + store" where
  "makedirs fs d = (if d = [] then Inl (FileNotFoundError d) else mkdir_all fs (ancestors d))"

text \<open>\<open>os.listdir(d)\<close>: the names directly under \<open>d\<close>, in the store's order.\<close>

definition listdir :: "store \<Rightarrow> string \<Rightarrow> exn + string list" where
  "listdir fs d =
     (case map_of fs d of
        None \<Rightarrow> Inl (FileNotFoundError d)
      | Some (File c) \<Rightarrow> Inl (NotADirectoryError d)
      | Some Dir \<Rightarrow>
          Inr (map basename
                 (filter (\<lambda>p. path_join d (basename p) = p \<and> basename p \<noteq> [])
                    (remdups (map fst fs)))))"

section \<open>Numbers, the clock and external processes\<close>

text \<open>\<open>str(n)\<close> for integers, and \<open>s.zfill(w)\<close>.\<close>

definition digit_char :: "nat \<Rightarrow> char" where
  "digit_char n = char_of (48 + n)"

function str_of_nat :: "nat \<Rightarrow> string" where
  "str_of_nat n = (if n < 10 then [digit_char n] else str_of_nat (n div 10) @ [digit_char (n mod 10)])"
  by pat_completeness auto
termination
  by (relation "measure id") auto

declare str_of_nat.simps [simp del]

definition str_of_int :: "int \<Rightarrow> string" where
  "str_of_int i = (if i < 0 then ''-'' @ str_of_nat (nat (- i)) else str_of_nat (nat i))"

definition zfill :: "nat \<Rightarrow> string \<Rightarrow> string" where
  "zfill w s = replicate (w - length s) CHR ''0'' @ s"

text \<open>\<open>c.isdigit()\<close> on one ASCII character.\<close>

definition isdigit :: "char \<Rightarrow> bool" where
  "isdigit c = (48 \<le> (of_char c :: nat) \<and> (of_char c :: nat) \<le> 57)"

text \<open>
  The value of \<open>datetime.now()\<close> is an input of every function that takes a backup;
  \<open>timestamp\<close> is its \<open>strftime("%Y%m%d_%H%M%S")\<close>.
\<close>

record datetime =
  dt_year :: nat
  dt_month :: nat
  dt_day :: nat
  dt_hour :: nat
  dt_minute :: nat
  dt_second :: nat

definition timestamp :: "datetime \<Rightarrow> string" where
  "timestamp now =
     zfill 4 (str_of_nat (dt_year now)) @ zfill 2 (str_of_nat (dt_month now))
     @ zfill 2 (str_of_nat (dt_day now)) @ ''_'' @ zfill 2 (str_of_nat (dt_hour now))
     @ zfill 2 (str_of_nat (dt_minute now)) @ zfill 2 (str_of_nat (dt_second now))"

text \<open>
  An external command is known by its behaviour only: it exits after some seconds with
  its output, its error output and its return code, or it never exits, or it cannot be
  launched (the exception says why). \<open>subprocess.run(cmd, capture_output=True,
  text=True, timeout=t)\<close> returns the completed process, or raises \<open>TimeoutExpired\<close>
  when the command is still running after \<open>t\<close> seconds, or raises the launch failure.
\<close>

datatype process = Exits nat string string int | Hangs | LaunchFails exn

record completed_process =
  stdout :: string
  stderr :: string
  returncode :: int

definition repr_list :: "string list \<Rightarrow> string" where
  "repr_list xs = ''['' @ join_with '', '' (map (\<lambda>x. [quote] @ x @ [quote]) xs) @ '']''"

definition timeout_expired :: "string list \<Rightarrow> int \<Rightarrow> exn" where
  "timeout_expired cmd t =
     TimeoutExpired (''Command '' @ [quote] @ repr_list cmd @ [quote] @ '' timed out after ''
                     @ str_of_int t @ '' seconds'')"

definition subprocess_run :: "process \<Rightarrow> string list \<Rightarrow> int \<Rightarrow> exn + completed_process" where
  "subprocess_run proc cmd t =
     (case proc of
        Exits seconds out err rc \<Rightarrow>
          if t < int seconds then Inl (timeout_expired cmd t)
          else Inr \<lparr>stdout = out, stderr = err, returncode = rc\<rparr>
      | Hangs \<Rightarrow> Inl (timeout_expired cmd t)
      | LaunchFails e \<Rightarrow> Inl e)"

text \<open>
  \<^verbatim>\<open>
  def run_ansible_command(cmd: list, timeout: int = 300) -> str:
      logger.info(f"Running command: {' '.join(cmd)}")
      try:
          result = subprocess.run(cmd, capture_output=True, text=True, timeout=timeout,
                                  cwd=ANSIBLE_DIR, env={...})
          output_parts = []
          if result.stdout:
              output_parts.append("=== OUTPUT ===\n" + result.stdout)
          if result.stderr:
              output_parts.append("=== STDERR ===\n" + result.stderr)
          if result.returncode != 0:
              output_parts.append(f"\n=== RETURN CODE: {result.returncode} ===")
          return "\n".join(output_parts) if output_parts else "Command completed with no output."
      except subprocess.TimeoutExpired:
          return "ERROR: Command timed out after {} seconds.".format(timeout)
      except Exception as e:
          logger.error(f"Command failed: {e}")
          return f"ERROR: {str(e)}"
  \<close>
  The command line, the working directory and the environment decide which process
  runs; the model takes that process as \<open>proc\<close>.
\<close>

definition run_ansible_command :: "process \<Rightarrow> string list \<Rightarrow> int \<Rightarrow> exn + string" where
  "run_ansible_command proc cmd t =
     (case subprocess_run proc cmd t of
        Inr result \<Rightarrow>
          (let output_parts =
                 (if stdout result \<noteq> [] then [''=== OUTPUT ==='' @ [nl] @ stdout result] else [])
                 @ (if stderr result \<noteq> [] then [''=== STDERR ==='' @ [nl] @ stderr result] else [])
                 @ (if returncode result \<noteq> 0
                    then [[nl] @ ''=== RETURN CODE: '' @ str_of_int (returncode result) @ '' ==='']
                    else [])
           in Inr (if output_parts \<noteq> [] then join_with [nl] output_parts
                   else ''Command completed with no output.''))
      | Inl (TimeoutExpired m) \<Rightarrow>
          Inr (''ERROR: Command timed out after '' @ str_of_int t @ '' seconds.'')
      | Inl e \<Rightarrow> Inr (''ERROR: '' @ str_exn e))"

definition default_timeout :: int where
  "default_timeout = 300"

section \<open>Backups and the file tools\<close>

text \<open>
  \<^verbatim>\<open>
  def backup_file(filepath: str) -> str:
      if os.path.exists(filepath):
          timestamp = datetime.now().strftime("%Y%m%d_%H%M%S")
          backup_path = f"{filepath}.{timestamp}.bak"
          shutil.copy2(filepath, backup_path)
          return backup_path
      return ""
  \<close>
\<close>

definition backup_file :: "store \<Rightarrow> datetime \<Rightarrow> string \<Rightarrow> exn + (string \<times> store)" where
  "backup_file fs now filepath =
     (if path_exists fs filepath
      then (let backup_path = filepath @ ''.'' @ timestamp now @ ''.bak''
            in case copy2 fs filepath backup_path of
                 Inl e \<Rightarrow> Inl e
               | Inr fs' \<Rightarrow> Inr (backup_path, fs'))
      else Inr ([], fs))"

text \<open>
  \<^verbatim>\<open>
  def ansible_read_file(file_path: str = "") -> str:
      if not file_path:
          return "ERROR: No file path specified. Examples: ..."
      file_path = file_path.lstrip('/')
      full_path = os.path.normpath(os.path.join(ANSIBLE_DIR, file_path))
      if not full_path.startswith(ANSIBLE_DIR):
          return "ERROR: Access denied - path must be within Ansible directory."
      if not os.path.exists(full_path):
          return f"ERROR: File not found: {file_path}"
      if os.path.isdir(full_path):
          files = os.listdir(full_path)
          return f"'{file_path}' is a directory containing:\n"
                 + "\n".join(f"  - {f}" for f in sorted(files))
      try:
          with open(full_path, 'r') as f:
              content = f.read()
          return f"=== FILE: {file_path} ===\n\n{content}"
      except Exception as e:
          return f"ERROR: Failed to read file: {str(e)}"
  \<close>
  \<open>ANSIBLE_DIR\<close>, read from the environment at start-up, is a parameter.
\<close>

definition ansible_read_file :: "string \<Rightarrow> store \<Rightarrow> string \<Rightarrow> exn + string" where
  "ansible_read_file ANSIBLE_DIR fs file_path =
     (if file_path = []
      then Inr (''ERROR: No file path specified. Examples: inventory/hosts.ini, ''
                @ ''group_vars/qfx_switches.yml, ansible.cfg'')
      else
        let file_path = lstrip_by (\<lambda>c. c = CHR ''/'') file_path;
            full_path = normpath (path_join ANSIBLE_DIR file_path)
        in if \<not> startswith full_path ANSIBLE_DIR
           then Inr ''ERROR: Access denied - path must be within Ansible directory.''
           else if \<not> path_exists fs full_path
           then Inr (''ERROR: File not found: '' @ file_path)
           else if path_isdir fs full_path
           then (case listdir fs full_path of
                   Inl e \<Rightarrow> Inl e
                 | Inr files \<Rightarrow>
                     Inr ([quote] @ file_path @ [quote] @ '' is a directory containing:'' @ [nl]
                          @ join_with [nl] (map (\<lambda>f. ''  - '' @ f) (sort files))))
           else (case read_text fs full_path of
                   Inl e \<Rightarrow> Inr (''ERROR: Failed to read file: '' @ str_exn e)
                 | Inr content \<Rightarrow> Inr (''=== FILE: '' @ file_path @ '' ==='' @ [nl, nl] @ content)))"

text \<open>
  \<^verbatim>\<open>
  def ansible_write_file(file_path: str = "", content: str = "", create_backup: str = "yes") -> str:
      if not file_path:
          return "ERROR: No file path specified."
      if not content:
          return "ERROR: No content provided."
      file_path = file_path.lstrip('/')
      full_path = os.path.normpath(os.path.join(ANSIBLE_DIR, file_path))
      if not full_path.startswith(ANSIBLE_DIR):
          return "ERROR: Access denied - path must be within Ansible directory."
      parent_dir = os.path.dirname(full_path)
      os.makedirs(parent_dir, exist_ok=True)
      backup_path = ""
      if create_backup.lower() in ["yes", "true", "1"] and os.path.exists(full_path):
          backup_path = backup_file(full_path)
      try:
          with open(full_path, 'w') as f:
              f.write(content)
          msg = f"SUCCESS: File written to {file_path}"
          if backup_path:
              msg += f"\nBackup saved to: {os.path.basename(backup_path)}"
          return msg
      except Exception as e:
          return f"ERROR: Failed to write file: {str(e)}"
  \<close>
  A tool that changes files returns its message and the store it leaves.
\<close>

definition ansible_write_file ::
  "string \<Rightarrow> store \<Rightarrow> datetime \<Rightarrow> string \<Rightarrow> string \<Rightarrow> string \<Rightarrow> exn + (string \<times> store)" where
  "ansible_write_file ANSIBLE_DIR fs now file_path content create_backup =
     (if file_path = [] then Inr (''ERROR: No file path specified.'', fs)
      else if content = [] then Inr (''ERROR: No content provided.'', fs)
      else
        let file_path = lstrip_by (\<lambda>c. c = CHR ''/'') file_path;
            full_path = normpath (path_join ANSIBLE_DIR file_path)
        in if \<not> startswith full_path ANSIBLE_DIR
           then Inr (''ERROR: Access denied - path must be within Ansible directory.'', fs)
           else
             (case makedirs fs (dirname full_path) of
                Inl e \<Rightarrow> Inl e
              | Inr fs1 \<Rightarrow>
                 (case (if lower create_backup \<in> set [''yes'', ''true'', ''1'']
                           \<and> path_exists fs1 full_path
                        then backup_file fs1 now full_path
                        else Inr ([], fs1)) of
                    Inl e \<Rightarrow> Inl e
                  | Inr (backup_path, fs2) \<Rightarrow>
                     (case write_text fs2 full_path content of
                        Inl e \<Rightarrow> Inr (''ERROR: Failed to write file: '' @ str_exn e, fs2)
                      | Inr fs3 \<Rightarrow>
                          Inr (''SUCCESS: File written to '' @ file_path
                               @ (if backup_path \<noteq> []
                                  then [nl] @ ''Backup saved to: '' @ basename backup_path
                                  else []),
                               fs3)))))"

section \<open>The inventory tools\<close>

definition INVENTORY_DIR :: "string \<Rightarrow> string" where
  "INVENTORY_DIR ANSIBLE_DIR = path_join ANSIBLE_DIR ''inventory''"

definition INVENTORY_PATH :: "string \<Rightarrow> string" where
  "INVENTORY_PATH ANSIBLE_DIR = path_join (INVENTORY_DIR ANSIBLE_DIR) ''hosts.ini''"

definition PLAYBOOKS_DIR :: "string \<Rightarrow> string" where
  "PLAYBOOKS_DIR ANSIBLE_DIR = path_join ANSIBLE_DIR ''playbooks''"

text \<open>
  \<^verbatim>\<open>
  def ansible_write_inventory(content: str = "") -> str:
      if not content:
          return "ERROR: No inventory content provided. Example format:\n\n[group_name]\n..."
      backup_path = backup_file(INVENTORY_PATH)
      try:
          os.makedirs(INVENTORY_DIR, exist_ok=True)
          with open(INVENTORY_PATH, 'w') as f:
              f.write(content)
          cmd = ["ansible-inventory", "-i", INVENTORY_PATH, "--list"]
          result = subprocess.run(cmd, capture_output=True, text=True, timeout=30, cwd=ANSIBLE_DIR)
          if result.returncode == 0:
              msg = f"SUCCESS: Inventory updated at {INVENTORY_PATH}"
              if backup_path:
                  msg += f"\nBackup: {os.path.basename(backup_path)}"
              return msg
          else:
              return f"WARNING: Inventory written but validation failed:\n{result.stderr}\n\n
                       Backup: {os.path.basename(backup_path)}"
      except Exception as e:
          return f"ERROR: Failed to write inventory: {str(e)}"
  \<close>
  The validation command sees the store as it is when the command is launched:
  \<open>engine cmd fs\<close> is the process that \<open>cmd\<close> starts on the store \<open>fs\<close>. It reads the
  store and does not change it.
\<close>

type_synonym engine = "string list \<Rightarrow> store \<Rightarrow> process"

definition ansible_write_inventory ::
  "string \<Rightarrow> engine \<Rightarrow> store \<Rightarrow> datetime \<Rightarrow> string \<Rightarrow> exn + (string \<times> store)" where
  "ansible_write_inventory ANSIBLE_DIR engine fs now content =
     (if content = []
      then Inr (''ERROR: No inventory content provided. Example format:'' @ [nl, nl]
                @ ''[group_name]'' @ [nl] @ ''host1 ansible_host=192.168.1.1'' @ [nl]
                @ ''host2 ansible_host=192.168.1.2'', fs)
      else
        (case backup_file fs now (INVENTORY_PATH ANSIBLE_DIR) of
           Inl e \<Rightarrow> Inl e
         | Inr (backup_path, fs1) \<Rightarrow>
            (case makedirs fs1 (INVENTORY_DIR ANSIBLE_DIR) of
               Inl e \<Rightarrow> Inr (''ERROR: Failed to write inventory: '' @ str_exn e, fs1)
             | Inr fs2 \<Rightarrow>
                (case write_text fs2 (INVENTORY_PATH ANSIBLE_DIR) content of
                   Inl e \<Rightarrow> Inr (''ERROR: Failed to write inventory: '' @ str_exn e, fs2)
                 | Inr fs3 \<Rightarrow>
                    (let cmd = [''ansible-inventory'', ''-i'', INVENTORY_PATH ANSIBLE_DIR, ''--list'']
                     in case subprocess_run (engine cmd fs3) cmd 30 of
                          Inl e \<Rightarrow> Inr (''ERROR: Failed to write inventory: '' @ str_exn e, fs3)
                        | Inr result \<Rightarrow>
                            if returncode result = 0
                            then Inr (''SUCCESS: Inventory updated at '' @ INVENTORY_PATH ANSIBLE_DIR
                                      @ (if backup_path \<noteq> []
                                         then [nl] @ ''Backup: '' @ basename backup_path else []),
                                      fs3)
                            else Inr (''WARNING: Inventory written but validation failed:'' @ [nl]
                                      @ stderr result @ [nl, nl] @ ''Backup: ''
                                      @ basename backup_path,
                                      fs3))))))"

text \<open>
  \<^verbatim>\<open>
  def ansible_add_host(hostname: str = "", ansible_host: str = "", group: str = "all",
                       extra_vars: str = "") -> str:
      if not hostname:
          return "ERROR: No hostname specified."
      if not ansible_host:
          return "ERROR: No ansible_host (IP address) specified."
      hostname = sanitize_input(hostname)
      ansible_host = sanitize_input(ansible_host)
      group = sanitize_input(group) or "all"
      current_content = ""
      if os.path.exists(INVENTORY_PATH):
          with open(INVENTORY_PATH, 'r') as f:
              current_content = f.read()
      if hostname in current_content:
          return f"ERROR: Host '{hostname}' already exists in inventory."
      host_line = f"{hostname} ansible_host={ansible_host}"
      if extra_vars:
          host_line += f" {sanitize_input(extra_vars)}"
      lines = current_content.split('\n')
      group_header = f"[{group}]"
      group_found = False
      new_lines = []
      for i, line in enumerate(lines):
          new_lines.append(line)
          if line.strip() == group_header:
              group_found = True
              new_lines.append(host_line)
      if not group_found:
          if new_lines and new_lines[-1].strip():
              new_lines.append("")
          new_lines.append(group_header)
          new_lines.append(host_line)
      backup_file(INVENTORY_PATH)
      with open(INVENTORY_PATH, 'w') as f:
          f.write('\n'.join(new_lines))
      return f"SUCCESS: Added host '{hostname}' ({ansible_host}) to group '{group}'"
  \<close>
  \<open>add_host_step\<close> is the body of the loop on the pair of \<open>new_lines\<close> and
  \<open>group_found\<close>; \<open>add_host_lines\<close> is the text edit from \<open>lines\<close> to the final
  \<open>new_lines\<close>.
\<close>

definition add_host_step ::
  "string \<Rightarrow> string \<Rightarrow> string \<Rightarrow> string list \<times> bool \<Rightarrow> string list \<times> bool" where
  "add_host_step group_header host_line line st =
     (let new_lines = fst st @ [line]
      in if strip line = group_header then (new_lines @ [host_line], True)
         else (new_lines, snd st))"

definition add_host_lines :: "string \<Rightarrow> string \<Rightarrow> string list \<Rightarrow> string list" where
  "add_host_lines group_header host_line lines =
     (let st = fold (add_host_step group_header host_line) lines ([], False);
          new_lines = fst st;
          group_found = snd st
      in if \<not> group_found
         then (if new_lines \<noteq> [] \<and> strip (last new_lines) \<noteq> [] then new_lines @ [[]]
               else new_lines) @ [group_header, host_line]
         else new_lines)"

definition ansible_add_host ::
  "string \<Rightarrow> store \<Rightarrow> datetime \<Rightarrow> string \<Rightarrow> string \<Rightarrow> string \<Rightarrow> string
   \<Rightarrow> exn + (string \<times> store)" where
  "ansible_add_host ANSIBLE_DIR fs now hostname ansible_host group_name extra_vars =
     (if hostname = [] then Inr (''ERROR: No hostname specified.'', fs)
      else if ansible_host = [] then Inr (''ERROR: No ansible_host (IP address) specified.'', fs)
      else
        let hostname = sanitize_input hostname;
            ansible_host = sanitize_input ansible_host;
            group_name = (if sanitize_input group_name \<noteq> [] then sanitize_input group_name
                          else ''all'')
        in case (if path_exists fs (INVENTORY_PATH ANSIBLE_DIR)
                 then read_text fs (INVENTORY_PATH ANSIBLE_DIR) else Inr []) of
             Inl e \<Rightarrow> Inl e
           | Inr current_content \<Rightarrow>
               if str_in hostname current_content
               then Inr (''ERROR: Host '' @ [quote] @ hostname @ [quote]
                         @ '' already exists in inventory.'', fs)
               else
                 let host_line = hostname @ '' ansible_host='' @ ansible_host
                                 @ (if extra_vars \<noteq> [] then '' '' @ sanitize_input extra_vars else []);
                     lines = split_on nl current_content;
                     group_header = ''['' @ group_name @ '']'';
                     new_lines = add_host_lines group_header host_line lines
                 in (case backup_file fs now (INVENTORY_PATH ANSIBLE_DIR) of
                       Inl e \<Rightarrow> Inl e
                     | Inr (backup_path, fs1) \<Rightarrow>
                        (case write_text fs1 (INVENTORY_PATH ANSIBLE_DIR) (join_with [nl] new_lines) of
                           Inl e \<Rightarrow> Inl e
                         | Inr fs2 \<Rightarrow>
                             Inr (''SUCCESS: Added host '' @ [quote] @ hostname @ [quote] @ '' (''
                                  @ ansible_host @ '') to group '' @ [quote] @ group_name @ [quote],
                                  fs2))))"

text \<open>
  \<^verbatim>\<open>
  def ansible_remove_host(hostname: str = "", confirm: str = "no") -> str:
      if not hostname:
          return "ERROR: No hostname specified."
      if confirm.lower() not in ["yes", "true", "1"]:
          return f"WARNING: This will remove '{hostname}' from inventory. Set confirm=yes to proceed."
      hostname = sanitize_input(hostname)
      if not os.path.exists(INVENTORY_PATH):
          return "ERROR: Inventory file not found."
      with open(INVENTORY_PATH, 'r') as f:
          lines = f.readlines()
      new_lines = []
      removed = False
      for line in lines:
          if line.strip().startswith(hostname + " ") or line.strip() == hostname:
              removed = True
              continue
          new_lines.append(line)
      if not removed:
          return f"ERROR: Host '{hostname}' not found in inventory."
      backup_file(INVENTORY_PATH)
      with open(INVENTORY_PATH, 'w') as f:
          f.writelines(new_lines)
      return f"SUCCESS: Removed host '{hostname}' from inventory."
  \<close>
  \<open>readlines\<close> cuts the text after each newline and keeps the newline on its line.
\<close>

fun readlines :: "string \<Rightarrow> string list" where
  "readlines [] = []"
| "readlines (c # cs) =
     (if c = nl then [nl] # readlines cs
      else (case readlines cs of [] \<Rightarrow> [[c]] | l # ls \<Rightarrow> (c # l) # ls))"

definition remove_host_step :: "string \<Rightarrow> string \<Rightarrow> string list \<times> bool \<Rightarrow> string list \<times> bool" where
  "remove_host_step hostname line st =
     (if startswith (strip line) (hostname @ '' '') \<or> strip line = hostname
      then (fst st, True)
      else (fst st @ [line], snd st))"

definition ansible_remove_host ::
  "string \<Rightarrow> store \<Rightarrow> datetime \<Rightarrow> string \<Rightarrow> string \<Rightarrow> exn + (string \<times> store)" where
  "ansible_remove_host ANSIBLE_DIR fs now hostname confirm =
     (if hostname = [] then Inr (''ERROR: No hostname specified.'', fs)
      else if lower confirm \<notin> set [''yes'', ''true'', ''1'']
      then Inr (''WARNING: This will remove '' @ [quote] @ hostname @ [quote]
                @ '' from inventory. Set confirm=yes to proceed.'', fs)
      else
        let hostname = sanitize_input hostname
        in if \<not> path_exists fs (INVENTORY_PATH ANSIBLE_DIR)
           then Inr (''ERROR: Inventory file not found.'', fs)
           else
             (case read_text fs (INVENTORY_PATH ANSIBLE_DIR) of
                Inl e \<Rightarrow> Inl e
              | Inr content \<Rightarrow>
                 (let lines = readlines content;
                      st = fold (remove_host_step hostname) lines ([], False);
                      new_lines = fst st;
                      removed = snd st
                  in if \<not> removed
                     then Inr (''ERROR: Host '' @ [quote] @ hostname @ [quote]
                               @ '' not found in inventory.'', fs)
                     else
                       (case backup_file fs now (INVENTORY_PATH ANSIBLE_DIR) of
                          Inl e \<Rightarrow> Inl e
                        | Inr (backup_path, fs1) \<Rightarrow>
                           (case write_text fs1 (INVENTORY_PATH ANSIBLE_DIR) (concat new_lines) of
                              Inl e \<Rightarrow> Inl e
                            | Inr fs2 \<Rightarrow>
                                Inr (''SUCCESS: Removed host '' @ [quote] @ hostname @ [quote]
                                     @ '' from inventory.'', fs2))))))"

section \<open>Deleting a playbook\<close>

text \<open>
  \<^verbatim>\<open>
  def get_available_playbooks() -> list:
      playbooks = []
      if os.path.exists(PLAYBOOKS_DIR):
          for f in os.listdir(PLAYBOOKS_DIR):
              if f.endswith((".yml", ".yaml")):
                  playbooks.append(f)
      root_playbook = os.path.join(ANSIBLE_DIR, "playbook.yml")
      if os.path.exists(root_playbook):
          playbooks.append("playbook.yml (root)")
      return playbooks

  def ansible_delete_playbook(playbook_name: str = "", confirm: str = "no") -> str:
      if not playbook_name:
          available = get_available_playbooks()
          if available:
              return "ERROR: No playbook specified. Available:\n- " + "\n- ".join(available)
          return "ERROR: No playbook specified."
      if confirm.lower() not in ["yes", "true", "1"]:
          return f"WARNING: This will delete '{playbook_name}'. Set confirm=yes to proceed."
      playbook_name = sanitize_input(playbook_name)
      if not playbook_name.endswith((".yml", ".yaml")):
          playbook_name += ".yml"
      playbook_path = os.path.join(PLAYBOOKS_DIR, playbook_name)
      if not os.path.exists(playbook_path):
          return f"ERROR: Playbook not found: {playbook_name}"
      try:
          backup_file(playbook_path)  # Backup before delete
          os.remove(playbook_path)
          return f"SUCCESS: Playbook '{playbook_name}' deleted (backup created)."
      except Exception as e:
          return f"ERROR: Failed to delete playbook: {str(e)}"
  \<close>
\<close>

definition get_available_playbooks :: "string \<Rightarrow> store \<Rightarrow> exn + string list" where
  "get_available_playbooks ANSIBLE_DIR fs =
     (case (if path_exists fs (PLAYBOOKS_DIR ANSIBLE_DIR)
            then (case listdir fs (PLAYBOOKS_DIR ANSIBLE_DIR) of
                    Inl e \<Rightarrow> Inl e
                  | Inr fs_names \<Rightarrow>
                      Inr (filter (\<lambda>f. endswith f ''.yml'' \<or> endswith f ''.yaml'') fs_names))
            else Inr []) of
        Inl e \<Rightarrow> Inl e
      | Inr playbooks \<Rightarrow>
          Inr (playbooks @ (if path_exists fs (path_join ANSIBLE_DIR ''playbook.yml'')
                            then [''playbook.yml (root)''] else [])))"

definition ansible_delete_playbook ::
  "string \<Rightarrow> store \<Rightarrow> datetime \<Rightarrow> string \<Rightarrow> string \<Rightarrow> exn + (string \<times> store)" where
  "ansible_delete_playbook ANSIBLE_DIR fs now playbook_name confirm =
     (if playbook_name = []
      then (case get_available_playbooks ANSIBLE_DIR fs of
              Inl e \<Rightarrow> Inl e
            | Inr available \<Rightarrow>
                if available \<noteq> []
                then Inr (''ERROR: No playbook specified. Available:'' @ [nl] @ ''- ''
                          @ join_with ([nl] @ ''- '') available, fs)
                else Inr (''ERROR: No playbook specified.'', fs))
      else if lower confirm \<notin> set [''yes'', ''true'', ''1'']
      then Inr (''WARNING: This will delete '' @ [quote] @ playbook_name @ [quote]
                @ ''. Set confirm=yes to proceed.'', fs)
      else
        let playbook_name = sanitize_input playbook_name;
            playbook_name = (if \<not> (endswith playbook_name ''.yml'' \<or> endswith playbook_name ''.yaml'')
                             then playbook_name @ ''.yml'' else playbook_name);
            playbook_path = path_join (PLAYBOOKS_DIR ANSIBLE_DIR) playbook_name
        in if \<not> path_exists fs playbook_path
           then Inr (''ERROR: Playbook not found: '' @ playbook_name, fs)
           else
             (case backup_file fs now playbook_path of
                Inl e \<Rightarrow> Inr (''ERROR: Failed to delete playbook: '' @ str_exn e, fs)
              | Inr (backup_path, fs1) \<Rightarrow>
                 (case os_remove fs1 playbook_path of
                    Inl e \<Rightarrow> Inr (''ERROR: Failed to delete playbook: '' @ str_exn e, fs1)
                  | Inr fs2 \<Rightarrow>
                      Inr (''SUCCESS: Playbook '' @ [quote] @ playbook_name @ [quote]
                           @ '' deleted (backup created).'', fs2))))"

section \<open>Reference definitions for the statements\<close>

text \<open>
  Containment as the specification words it: a path is inside the root when it is the
  root or lies below it.
\<close>

definition within_root :: "string \<Rightarrow> string \<Rightarrow> bool" where
  "within_root root p = (p = root \<or> startswith p (root @ ''/''))"

text \<open>The test of the loop of \<open>ansible_remove_host\<close>, on one line.\<close>

definition host_matches :: "string \<Rightarrow> string \<Rightarrow> bool" where
  "host_matches hostname line = (startswith (strip line) (hostname @ '' '') \<or> strip line = hostname)"

text \<open>
  The same test as the specification words it, on a line without its newline: the
  line is the host, or starts with the host and a space.
\<close>

definition spec_host_matches :: "string \<Rightarrow> string \<Rightarrow> bool" where
  "spec_host_matches hostname line = (line = hostname \<or> startswith line (hostname @ '' ''))"

text \<open>
  The edit of \<open>addHost\<close> as the specification words it: the record goes after the first
  line equal to the header, and only there; without such a line a blank line (when the
  document is not empty and its last line is not blank), the header and the record are
  appended.
\<close>

fun spec_insert_first :: "string \<Rightarrow> string \<Rightarrow> string list \<Rightarrow> string list option" where
  "spec_insert_first h r [] = None"
| "spec_insert_first h r (l # ls) =
     (if l = h then Some (l # r # ls) else map_option (Cons l) (spec_insert_first h r ls))"

definition spec_add_host_lines :: "string \<Rightarrow> string \<Rightarrow> string list \<Rightarrow> string list" where
  "spec_add_host_lines h r ls =
     (case spec_insert_first h r ls of
        Some ls' \<Rightarrow> ls'
      | None \<Rightarrow> (if ls \<noteq> [[]] \<and> strip (last ls) \<noteq> [] then ls @ [[]] else ls) @ [h, r])"

text \<open>A clock reading for the worked examples: 7 March 2025, 09:05:01.\<close>

definition sample_now :: datetime where
  "sample_now = \<lparr>dt_year = 2025, dt_month = 3, dt_day = 7, dt_hour = 9, dt_minute = 5, dt_second = 1\<rparr>"

text \<open>Two stores for the worked examples.\<close>

definition sample_store :: store where
  "sample_store =
     [(''/root'', Dir), (''/root/ansible'', Dir), (''/root/ansible/inventory'', Dir),
      (''/root/ansible/inventory/hosts.ini'', File ''old'')]"

definition asset_store :: store where
  "asset_store = [(''/root'', Dir), (''/root/ansible'', Dir), (''/root/ansible/a.txt'', File ''old'')]"

section \<open>Properties of the string operations\<close>

lemma fold_remove_char: "fold remove_char cs s = filter (\<lambda>x. x \<notin> set cs) s"
proof (induction cs arbitrary: s)
  case Nil
  show ?case by simp
next
  case (Cons c cs)
  have "fold remove_char (c # cs) s = fold remove_char cs (remove_char c s)"
    by simp
  also have "\<dots> = filter (\<lambda>x. x \<notin> set cs) (filter (\<lambda>x. x \<noteq> c) s)"
    by (simp add: Cons.IH remove_char_def)
  also have "\<dots> = filter (\<lambda>x. x \<notin> set (c # cs)) s"
    by simp
  finally show ?case .
qed

lemma set_strip_by: "set (strip_by P s) \<subseteq> set s"
proof
  fix x
  assume "x \<in> set (strip_by P s)"
  then have "x \<in> set (dropWhile P (rev (dropWhile P s)))"
    by (simp add: strip_by_def lstrip_by_def rstrip_by_def)
  then have "x \<in> set (rev (dropWhile P s))"
    by (rule set_dropWhileD)
  then have "x \<in> set (dropWhile P s)"
    by simp
  then show "x \<in> set s"
    by (rule set_dropWhileD)
qed

lemma strip_by_not_hd: "strip_by P s \<noteq> [] \<Longrightarrow> \<not> P (hd (strip_by P s))"
proof -
  assume ne: "strip_by P s \<noteq> []"
  let ?l = "dropWhile P s"
  have l_ne: "?l \<noteq> []"
  proof
    assume e: "?l = []"
    have "strip_by P s = rev (dropWhile P (rev ?l))"
      by (simp add: strip_by_def lstrip_by_def rstrip_by_def)
    also have "\<dots> = []"
      unfolding e by simp
    finally show False using ne by simp
  qed
  have hd_l: "\<not> P (hd ?l)"
    using l_ne hd_dropWhile by blast
  obtain ys where ys: "rev ?l = ys @ dropWhile P (rev ?l)"
    by (metis takeWhile_dropWhile_id)
  have "?l = strip_by P s @ rev ys"
    using ys by (metis rev_append rev_rev_ident strip_by_def lstrip_by_def rstrip_by_def)
  then have "hd ?l = hd (strip_by P s)"
    using ne by (metis hd_append2)
  then show ?thesis using hd_l by simp
qed

lemma strip_by_not_last: "strip_by P s \<noteq> [] \<Longrightarrow> \<not> P (last (strip_by P s))"
proof -
  assume ne: "strip_by P s \<noteq> []"
  let ?r = "dropWhile P (rev (dropWhile P s))"
  have r_ne: "?r \<noteq> []"
    using ne by (simp add: strip_by_def lstrip_by_def rstrip_by_def)
  have "\<not> P (hd ?r)"
    using r_ne hd_dropWhile by blast
  moreover have "last (rev ?r) = hd ?r"
    using r_ne by (simp add: last_rev)
  ultimately show ?thesis
    by (simp add: strip_by_def lstrip_by_def rstrip_by_def)
qed

text \<open>
  C9. For every input string, \<open>sanitize_input\<close> returns the input with every occurrence
  of the shell metacharacters \<open>; & | $ ` ( ) { } < > \\<close> removed and the surrounding
  whitespace stripped: the result is the whitespace-stripped filter of the input, it
  contains none of the metacharacters, and it neither starts nor ends with whitespace.
\<close>

theorem sanitize_input_removes_metacharacters:
  "sanitize_input v = strip (filter (\<lambda>c. c \<notin> set dangerous_chars) v)
   \<and> set (sanitize_input v) \<inter> set dangerous_chars = {}
   \<and> (sanitize_input v = [] \<or>
        (\<not> isspace (hd (sanitize_input v)) \<and> \<not> isspace (last (sanitize_input v))))"
proof -
  have eq: "sanitize_input v = strip (filter (\<lambda>c. c \<notin> set dangerous_chars) v)"
    by (cases "v = []")
       (simp_all add: sanitize_input_def fold_remove_char strip_def strip_by_def
          lstrip_by_def rstrip_by_def)
  have "set (sanitize_input v) \<subseteq> set (filter (\<lambda>c. c \<notin> set dangerous_chars) v)"
    unfolding eq strip_def by (rule set_strip_by)
  then have clean: "set (sanitize_input v) \<inter> set dangerous_chars = {}"
    by auto
  have ends: "sanitize_input v = [] \<or>
        (\<not> isspace (hd (sanitize_input v)) \<and> \<not> isspace (last (sanitize_input v)))"
    unfolding eq strip_def using strip_by_not_hd strip_by_not_last by blast
  from eq clean ends show ?thesis by blast
qed

theorem sanitize_input_scenario:
  "sanitize_input ''rm -rf / ; echo hi'' = ''rm -rf /  echo hi''
   \<and> CHR '';'' \<notin> set (sanitize_input ''rm -rf / ; echo hi'')
   \<and> set (sanitize_input ''rm -rf / ; echo hi'') \<inter> set dangerous_chars = {}
   \<and> sanitize_input ''rm -rf / ; echo hi'' \<noteq> []
   \<and> \<not> isspace (hd (sanitize_input ''rm -rf / ; echo hi''))
   \<and> \<not> isspace (last (sanitize_input ''rm -rf / ; echo hi''))"
proof -
  have v: "sanitize_input ''rm -rf / ; echo hi'' = ''rm -rf /  echo hi''"
    by (simp add: sanitize_input_def dangerous_chars_def remove_char_def strip_def
        strip_by_def lstrip_by_def rstrip_by_def isspace_def)
  note t = sanitize_input_removes_metacharacters [of "''rm -rf / ; echo hi''"]
  have c: "set (sanitize_input ''rm -rf / ; echo hi'') \<inter> set dangerous_chars = {}"
    using t by blast
  have ne: "sanitize_input ''rm -rf / ; echo hi'' \<noteq> []"
    using v by simp
  have e: "\<not> isspace (hd (sanitize_input ''rm -rf / ; echo hi''))
           \<and> \<not> isspace (last (sanitize_input ''rm -rf / ; echo hi''))"
    using t ne by blast
  have s: "CHR '';'' \<notin> set (sanitize_input ''rm -rf / ; echo hi'')"
    using c by (auto simp: dangerous_chars_def)
  show ?thesis using v c ne e s by (intro conjI) simp_all
qed

section \<open>The summariser\<close>

lemma startswith_iff: "startswith s p \<longleftrightarrow> (\<exists>b. s = p @ b)"
proof
  assume "startswith s p"
  then have "s = p @ drop (length p) s"
    unfolding startswith_def by (metis append_take_drop_id)
  then show "\<exists>b. s = p @ b" ..
next
  assume "\<exists>b. s = p @ b"
  then show "startswith s p"
    by (auto simp: startswith_def)
qed

lemma str_in_iff: "str_in p s \<longleftrightarrow> (\<exists>a b. s = a @ p @ b)"
proof (induction s)
  case Nil
  show ?case by auto
next
  case (Cons c cs)
  show ?case
  proof
    assume "str_in p (c # cs)"
    then consider "startswith (c # cs) p" | "str_in p cs" by auto
    then show "\<exists>a b. c # cs = a @ p @ b"
    proof cases
      case 1
      then obtain b where "c # cs = p @ b" using startswith_iff by blast
      then have "c # cs = [] @ p @ b" by simp
      then show ?thesis by blast
    next
      case 2
      then obtain a b where "cs = a @ p @ b" using Cons.IH by blast
      then have "c # cs = (c # a) @ p @ b" by simp
      then show ?thesis by blast
    qed
  next
    assume "\<exists>a b. c # cs = a @ p @ b"
    then obtain a b where ab: "c # cs = a @ p @ b" by blast
    show "str_in p (c # cs)"
    proof (cases a)
      case Nil
      then have "startswith (c # cs) p" using ab startswith_iff by auto
      then show ?thesis by simp
    next
      case (Cons x xs)
      then have "cs = xs @ p @ b" using ab by simp
      then have "str_in p cs" using Cons.IH by blast
      then show ?thesis by simp
    qed
  qed
qed

lemma split_on_nonempty: "split_on sep s \<noteq> []"
  by (induction s) (auto split: list.splits)

lemma join_with_Cons: "xs \<noteq> [] \<Longrightarrow> join_with sep (x # xs) = x @ sep @ join_with sep xs"
  by (cases xs) simp_all

lemma join_with_Cons_hd: "join_with sep ((c # l) # ls) = c # join_with sep (l # ls)"
  by (cases ls) simp_all

lemma join_split_on: "join_with [sep] (split_on sep s) = s"
proof (induction s)
  case Nil
  show ?case by simp
next
  case (Cons c cs)
  obtain x xs where sp: "split_on sep cs = x # xs"
    using split_on_nonempty by (cases "split_on sep cs") auto
  show ?case
  proof (cases "c = sep")
    case True
    then have "join_with [sep] (split_on sep (c # cs)) = [] @ [sep] @ join_with [sep] (split_on sep cs)"
      using split_on_nonempty by (simp add: join_with_Cons)
    then show ?thesis using Cons.IH True by simp
  next
    case False
    then have "join_with [sep] (split_on sep (c # cs)) = c # join_with [sep] (x # xs)"
      using sp by (simp add: join_with_Cons_hd)
    then show ?thesis using Cons.IH sp by simp
  qed
qed

lemma mem_join_with: "l \<in> set xs \<Longrightarrow> \<exists>a b. join_with sep xs = a @ l @ b"
proof (induction xs)
  case Nil
  then show ?case by simp
next
  case (Cons x xs)
  show ?case
  proof (cases "xs = []")
    case True
    then have "join_with sep (x # xs) = [] @ l @ []" using Cons.prems by simp
    then show ?thesis by blast
  next
    case False
    have j: "join_with sep (x # xs) = x @ sep @ join_with sep xs"
      using False by (rule join_with_Cons)
    from Cons.prems have "l = x \<or> l \<in> set xs" by auto
    then show ?thesis
    proof
      assume "l = x"
      then have "join_with sep (x # xs) = [] @ l @ (sep @ join_with sep xs)" using j by simp
      then show ?thesis by blast
    next
      assume "l \<in> set xs"
      then obtain a b where "join_with sep xs = a @ l @ b" using Cons.IH by blast
      then have "join_with sep (x # xs) = (x @ sep @ a) @ l @ b" using j by simp
      then show ?thesis by blast
    qed
  qed
qed

lemma split_on_mem: "l \<in> set (split_on sep s) \<Longrightarrow> \<exists>a b. s = a @ l @ b"
  using mem_join_with [of l "split_on sep s" "[sep]"] by (simp add: join_split_on)

lemma str_in_line: "l \<in> set (split_on sep s) \<Longrightarrow> str_in p l \<Longrightarrow> str_in p s"
proof -
  assume l: "l \<in> set (split_on sep s)" and p: "str_in p l"
  from l obtain a b where s: "s = a @ l @ b"
    using split_on_mem [of l sep s] by auto
  from p obtain c d where "l = c @ p @ d"
    unfolding str_in_iff by auto
  then have "s = (a @ c) @ p @ (d @ b)" using s by simp
  then show ?thesis unfolding str_in_iff by (intro exI)
qed

lemma str_in_lower_line: "l \<in> set (split_on sep s) \<Longrightarrow> str_in p (lower l) \<Longrightarrow> str_in p (lower s)"
proof -
  assume l: "l \<in> set (split_on sep s)" and p: "str_in p (lower l)"
  from l obtain a b where s: "s = a @ l @ b"
    using split_on_mem [of l sep s] by auto
  from p obtain c d where "lower l = c @ p @ d"
    unfolding str_in_iff by auto
  then have "lower s = (lower a @ c) @ p @ (d @ lower b)" using s by (simp add: lower_def)
  then show ?thesis unfolding str_in_iff by (intro exI)
qed

lemma summary_step_recap: "summary_step l (acc, True) = (acc @ [l], True)"
  by (simp add: summary_step_def)

lemma fold_summary_step_recap: "fold summary_step ls (acc, True) = (acc @ ls, True)"
  by (induction ls arbitrary: acc) (simp_all add: summary_step_recap)

lemma fold_summary_step: "fst (fold summary_step ls (acc, False)) = acc @ kept_lines ls"
proof (induction ls arbitrary: acc)
  case Nil
  show ?case by (simp add: kept_lines_def)
next
  case (Cons l ls)
  show ?case
  proof (cases "has_recap l")
    case True
    then have "summary_step l (acc, False) = (acc @ [l], True)"
      by (simp add: summary_step_def has_recap_def)
    then show ?thesis using True
      by (simp add: fold_summary_step_recap kept_lines_def)
  next
    case False
    then have "summary_step l (acc, False) = (if actionable l then acc @ [l] else acc, False)"
      by (simp add: summary_step_def has_recap_def actionable_def)
    then show ?thesis using False Cons.IH
      by (simp add: kept_lines_def)
  qed
qed

lemma kept_lines_empty:
  "\<forall>l \<in> set ls. \<not> has_recap l \<and> \<not> actionable l \<Longrightarrow> kept_lines ls = []"
proof -
  assume a: "\<forall>l \<in> set ls. \<not> has_recap l \<and> \<not> actionable l"
  then have tw: "takeWhile (\<lambda>l. \<not> has_recap l) ls = ls" by (simp add: takeWhile_eq_all_conv)
  have dw: "dropWhile (\<lambda>l. \<not> has_recap l) ls = []" using a by simp
  have fa: "filter actionable ls = []" using a by (simp add: filter_empty_conv)
  show ?thesis unfolding kept_lines_def tw dw fa by simp
qed

lemma quiet_line:
  assumes l: "l \<in> set (split_on nl c)"
    and r: "\<not> str_in ''PLAY RECAP'' c"
    and f1: "\<not> str_in ''fatal:'' (lower c)"
    and f2: "\<not> str_in ''failed:'' (lower c)"
    and ch: "\<not> str_in ''changed:'' (lower c)"
  shows "\<not> has_recap l \<and> \<not> actionable l"
proof -
  have "\<not> str_in ''PLAY RECAP'' l"
    using r str_in_line [OF l] by (rule contrapos_nn)
  moreover have "\<not> str_in ''fatal:'' (lower l)"
    using f1 str_in_lower_line [OF l] by (rule contrapos_nn)
  moreover have "\<not> str_in ''failed:'' (lower l)"
    using f2 str_in_lower_line [OF l] by (rule contrapos_nn)
  moreover have "\<not> str_in ''changed:'' (lower l)"
    using ch str_in_lower_line [OF l] by (rule contrapos_nn)
  ultimately show ?thesis
    unfolding has_recap_def actionable_def by simp
qed

lemma parse_ansible_output_kept:
  "parse_ansible_output c =
     (if kept_lines (split_on nl c) \<noteq> []
      then ''=== SUMMARY ==='' @ [nl] @ join_with [nl] (kept_lines (split_on nl c))
           @ [nl, nl] @ ''=== FULL OUTPUT ==='' @ [nl] @ c
      else c)"
proof -
  have k: "fst (fold summary_step (split_on nl c) ([], False)) = kept_lines (split_on nl c)"
    using fold_summary_step [of "split_on nl c" "[]"] by simp
  show ?thesis
    unfolding parse_ansible_output_def Let_def k ..
qed

text \<open>
  C4. \<open>parse_ansible_output\<close> keeps, in order, the actionable lines before the first
  line holding the recap marker and every line from that line on (\<open>kept_lines\<close>, the
  specification's wording, computed by the source's loop). When a line was kept the
  result is the kept lines under the summary heading followed by the raw output under
  the full-output heading; otherwise the input comes back unchanged. So a string
  with no recap, failure or change marker is returned as it is.
\<close>

theorem parse_ansible_output_summary:
  "parse_ansible_output c =
     (if kept_lines (split_on nl c) \<noteq> []
      then ''=== SUMMARY ==='' @ [nl] @ join_with [nl] (kept_lines (split_on nl c))
           @ [nl, nl] @ ''=== FULL OUTPUT ==='' @ [nl] @ c
      else c)
   \<and> (\<not> str_in ''PLAY RECAP'' c \<and> \<not> str_in ''fatal:'' (lower c)
        \<and> \<not> str_in ''failed:'' (lower c) \<and> \<not> str_in ''changed:'' (lower c)
      \<longrightarrow> parse_ansible_output c = c)"
proof (rule conjI)
  show "parse_ansible_output c =
     (if kept_lines (split_on nl c) \<noteq> []
      then ''=== SUMMARY ==='' @ [nl] @ join_with [nl] (kept_lines (split_on nl c))
           @ [nl, nl] @ ''=== FULL OUTPUT ==='' @ [nl] @ c
      else c)"
    by (rule parse_ansible_output_kept)
next
  show "\<not> str_in ''PLAY RECAP'' c \<and> \<not> str_in ''fatal:'' (lower c)
        \<and> \<not> str_in ''failed:'' (lower c) \<and> \<not> str_in ''changed:'' (lower c)
      \<longrightarrow> parse_ansible_output c = c"
  proof (rule impI, (erule conjE)+)
    assume r: "\<not> str_in ''PLAY RECAP'' c"
      and f1: "\<not> str_in ''fatal:'' (lower c)"
      and f2: "\<not> str_in ''failed:'' (lower c)"
      and ch: "\<not> str_in ''changed:'' (lower c)"
    have "\<forall>l \<in> set (split_on nl c). \<not> has_recap l \<and> \<not> actionable l"
      using quiet_line [OF _ r f1 f2 ch] by (rule ballI)
    then have e: "kept_lines (split_on nl c) = []" by (rule kept_lines_empty)
    show "parse_ansible_output c = c"
      unfolding parse_ansible_output_kept e by simp
  qed
qed

theorem parse_ansible_output_summary_witness:
  "\<not> str_in ''PLAY RECAP'' ''ok: [sw1]'' \<and> \<not> str_in ''fatal:'' (lower ''ok: [sw1]'')
   \<and> \<not> str_in ''failed:'' (lower ''ok: [sw1]'') \<and> \<not> str_in ''changed:'' (lower ''ok: [sw1]'')
   \<and> parse_ansible_output ''ok: [sw1]'' = ''ok: [sw1]''"
proof -
  have h: "\<not> str_in ''PLAY RECAP'' ''ok: [sw1]'' \<and> \<not> str_in ''fatal:'' (lower ''ok: [sw1]'')
   \<and> \<not> str_in ''failed:'' (lower ''ok: [sw1]'') \<and> \<not> str_in ''changed:'' (lower ''ok: [sw1]'')"
    by (simp add: startswith_def lower_def lower_char_def)
  have "parse_ansible_output ''ok: [sw1]'' = ''ok: [sw1]''"
    using conjunct2 [OF parse_ansible_output_summary [of "''ok: [sw1]''"]] h by (rule mp)
  then show ?thesis using h by simp
qed

lemma parse_ansible_output_example:
  "parse_ansible_output (''TASK [x]'' @ [nl] @ ''fatal: [sw1]: FAILED!'' @ [nl] @ ''done'')
   = ''=== SUMMARY ==='' @ [nl] @ ''fatal: [sw1]: FAILED!'' @ [nl, nl] @ ''=== FULL OUTPUT ===''
     @ [nl] @ ''TASK [x]'' @ [nl] @ ''fatal: [sw1]: FAILED!'' @ [nl] @ ''done''"
  by (simp add: parse_ansible_output_def summary_step_def startswith_def lower_def lower_char_def)

section \<open>The command runner\<close>

lemmas str_eval = startswith_def endswith_def lower_def lower_char_def isspace_def
  strip_def strip_by_def lstrip_by_def rstrip_by_def

lemmas path_eval = path_join_def normpath_def initial_slashes_def norm_step_def basename_def
  dirname_def

lemma digit_char_not_eq: "n < 10 \<Longrightarrow> digit_char n \<noteq> CHR ''=''"
proof
  assume n: "n < 10" and e: "digit_char n = CHR ''=''"
  have "of_char (digit_char n) = (48 + n :: nat)"
    using n by (simp add: digit_char_def)
  then have "48 + n = (61 :: nat)"
    unfolding e by simp
  then show False using n by simp
qed

lemma str_of_nat_no_eq: "CHR ''='' \<notin> set (str_of_nat n)"
proof (induction n rule: str_of_nat.induct)
  case (1 n)
  show ?case
  proof (cases "n < 10")
    case True
    then show ?thesis
      using digit_char_not_eq [of n] by (subst str_of_nat.simps) auto
  next
    case False
    have "n mod 10 < 10" by simp
    then have "digit_char (n mod 10) \<noteq> CHR ''=''" by (rule digit_char_not_eq)
    then show ?thesis
      using False 1 by (subst str_of_nat.simps) auto
  qed
qed

lemma str_of_int_no_eq: "CHR ''='' \<notin> set (str_of_int i)"
  using str_of_nat_no_eq by (simp add: str_of_int_def)

lemma str_in_set: "str_in p s \<Longrightarrow> set p \<subseteq> set s"
  unfolding str_in_iff by auto

lemma timed_out_message_no_eq:
  "CHR ''='' \<notin> set (''ERROR: Command timed out after '' @ str_of_int t @ '' seconds.'')"
  using str_of_int_no_eq [of t] by simp

lemma run_timeout:
  assumes "subprocess_run proc cmd t = Inl (TimeoutExpired m)"
  shows "run_ansible_command proc cmd t = Inr (''ERROR: Command timed out after '' @ str_of_int t @ '' seconds.'')"
  using assms by (simp add: run_ansible_command_def)

text \<open>
  C5. \<open>run_ansible_command\<close> never raises: whatever the process does, the call returns
  a string. A process that is still running after the timeout (300 seconds by default),
  or that never exits, gives the timed-out message, which reports no return code; a
  launch failure (a missing executable, a refused permission, any other exception)
  comes back as the text \<open>ERROR:\<close> followed by the exception's message.
\<close>

theorem run_ansible_command_total:
  "(\<exists>r. run_ansible_command proc cmd t = Inr r)
   \<and> ((proc = Hangs \<or> (\<exists>d out err rc. proc = Exits d out err rc \<and> t < int d)) \<longrightarrow>
        run_ansible_command proc cmd t
          = Inr (''ERROR: Command timed out after '' @ str_of_int t @ '' seconds.'')
        \<and> \<not> str_in ''=== RETURN CODE: '' (''ERROR: Command timed out after '' @ str_of_int t @ '' seconds.''))
   \<and> (\<forall>e. proc = LaunchFails e \<and> (\<forall>m. e \<noteq> TimeoutExpired m) \<longrightarrow>
        run_ansible_command proc cmd t = Inr (''ERROR: '' @ str_exn e))"
proof (intro conjI impI allI)
  show "\<exists>r. run_ansible_command proc cmd t = Inr r"
    by (auto simp: run_ansible_command_def Let_def split: sum.splits exn.splits)
next
  assume "proc = Hangs \<or> (\<exists>d out err rc. proc = Exits d out err rc \<and> t < int d)"
  then have "subprocess_run proc cmd t = Inl (timeout_expired cmd t)"
    by (auto simp: subprocess_run_def)
  then show "run_ansible_command proc cmd t
          = Inr (''ERROR: Command timed out after '' @ str_of_int t @ '' seconds.'')"
    unfolding timeout_expired_def by (rule run_timeout)
next
  show "\<not> str_in ''=== RETURN CODE: '' (''ERROR: Command timed out after '' @ str_of_int t @ '' seconds.'')"
  proof
    assume "str_in ''=== RETURN CODE: '' (''ERROR: Command timed out after '' @ str_of_int t @ '' seconds.'')"
    then have "set ''=== RETURN CODE: '' \<subseteq> set (''ERROR: Command timed out after '' @ str_of_int t @ '' seconds.'')"
      by (rule str_in_set)
    then have "CHR ''='' \<in> set (''ERROR: Command timed out after '' @ str_of_int t @ '' seconds.'')"
      by simp
    then show False
      using timed_out_message_no_eq [of t] by simp
  qed
next
  fix e
  assume "proc = LaunchFails e \<and> (\<forall>m. e \<noteq> TimeoutExpired m)"
  then show "run_ansible_command proc cmd t = Inr (''ERROR: '' @ str_exn e)"
    by (cases e) (simp_all add: run_ansible_command_def subprocess_run_def)
qed

theorem run_ansible_command_total_witness:
  "(301::nat) > 0 \<and> default_timeout < int (301::nat)
   \<and> run_ansible_command (Exits 301 ''partial'' [] 0) [''sleep'', ''301''] default_timeout
       = Inr ''ERROR: Command timed out after 300 seconds.''
   \<and> run_ansible_command (LaunchFails (FileNotFoundError ''ansible'')) [''ansible''] default_timeout
       = Inr (''ERROR: [Errno 2] No such file or directory: '' @ [quote] @ ''ansible'' @ [quote])"
proof -
  have t: "default_timeout < int (301::nat)"
    by (simp add: default_timeout_def)
  have s: "str_of_int default_timeout = ''300''"
    by code_simp
  have "run_ansible_command (Exits 301 ''partial'' [] 0) [''sleep'', ''301''] default_timeout
       = Inr (''ERROR: Command timed out after '' @ str_of_int default_timeout @ '' seconds.'')"
    using run_ansible_command_total [of "Exits 301 ''partial'' [] 0" "[''sleep'', ''301'']" default_timeout] t
    by auto
  moreover have "run_ansible_command (LaunchFails (FileNotFoundError ''ansible'')) [''ansible''] default_timeout
       = Inr (''ERROR: '' @ str_exn (FileNotFoundError ''ansible''))"
    using run_ansible_command_total [of "LaunchFails (FileNotFoundError ''ansible'')" "[''ansible'']" default_timeout]
    by auto
  ultimately show ?thesis
    using t s by (simp add: str_exn_def)
qed

section \<open>The store\<close>

lemma write_text_ok:
  "map_of fs p \<noteq> Some Dir \<Longrightarrow> map_of fs p \<noteq> None \<or> dir_present fs (dirname p) \<Longrightarrow>
   write_text fs p c = Inr (AList.update p (File c) fs)"
  by (auto simp: write_text_def split: option.splits node.splits)

lemma dir_present_sibling: "map_of fs q = Some n \<Longrightarrow> dir_present fs (dirname q)"
proof -
  assume "map_of fs q = Some n"
  then have "(q, n) \<in> set fs" by (rule map_of_SomeD)
  then have "q \<in> set (map fst fs)" by force
  then show ?thesis unfolding dir_present_def by blast
qed

lemma dirname_append: "CHR ''/'' \<notin> set s \<Longrightarrow> dirname (p @ s) = dirname p"
proof -
  assume s: "CHR ''/'' \<notin> set s"
  have "dropWhile (\<lambda>c. c \<noteq> CHR ''/'') (rev s @ rev p) = dropWhile (\<lambda>c. c \<noteq> CHR ''/'') (rev p)"
  proof (rule dropWhile_append2)
    fix x
    assume "x \<in> set (rev s)"
    then show "x \<noteq> CHR ''/''" using s by auto
  qed
  then show ?thesis by (simp add: dirname_def)
qed

lemma digit_char_not_slash: "n < 10 \<Longrightarrow> digit_char n \<noteq> CHR ''/''"
proof
  assume n: "n < 10" and e: "digit_char n = CHR ''/''"
  have "of_char (digit_char n) = (48 + n :: nat)"
    using n by (simp add: digit_char_def)
  then have "48 + n = (47 :: nat)"
    unfolding e by simp
  then show False by simp
qed

lemma str_of_nat_no_slash: "CHR ''/'' \<notin> set (str_of_nat n)"
proof (induction n rule: str_of_nat.induct)
  case (1 n)
  show ?case
  proof (cases "n < 10")
    case True
    then show ?thesis
      using digit_char_not_slash [of n] by (subst str_of_nat.simps) auto
  next
    case False
    have "n mod 10 < 10" by simp
    then have "digit_char (n mod 10) \<noteq> CHR ''/''" by (rule digit_char_not_slash)
    then show ?thesis
      using False 1 by (subst str_of_nat.simps) auto
  qed
qed

lemma zfill_no_slash: "CHR ''/'' \<notin> set (zfill w (str_of_nat n))"
  using str_of_nat_no_slash by (simp add: zfill_def)

lemma timestamp_no_slash: "CHR ''/'' \<notin> set (timestamp now)"
  using zfill_no_slash by (simp add: timestamp_def)

lemma basename_append: "CHR ''/'' \<notin> set s \<Longrightarrow> basename (p @ s) = basename p @ s"
proof -
  assume s: "CHR ''/'' \<notin> set s"
  have "takeWhile (\<lambda>c. c \<noteq> CHR ''/'') (rev s @ rev p)
             = rev s @ takeWhile (\<lambda>c. c \<noteq> CHR ''/'') (rev p)"
  proof (rule takeWhile_append2)
    fix x
    assume "x \<in> set (rev s)"
    then show "x \<noteq> CHR ''/''" using s by auto
  qed
  then show ?thesis by (simp add: basename_def)
qed

lemma basename_backup:
  "basename (p @ ''.'' @ timestamp now @ ''.bak'') = basename p @ ''.'' @ timestamp now @ ''.bak''"
proof -
  have "CHR ''/'' \<notin> set (''.'' @ timestamp now @ ''.bak'')"
    using timestamp_no_slash [of now] by simp
  then show ?thesis by (rule basename_append)
qed

lemma dirname_backup: "dirname (p @ ''.'' @ timestamp now @ ''.bak'') = dirname p"
proof -
  have "CHR ''/'' \<notin> set (''.'' @ timestamp now @ ''.bak'')"
    using timestamp_no_slash [of now] by simp
  then show ?thesis by (rule dirname_append)
qed


lemma backup_file_absent: "map_of fs p = None \<Longrightarrow> backup_file fs now p = Inr ([], fs)"
  by (simp add: backup_file_def path_exists_def)

lemma backup_file_file:
  assumes f: "map_of fs p = Some (File c)"
    and d: "map_of fs (p @ ''.'' @ timestamp now @ ''.bak'') \<noteq> Some Dir"
  shows "backup_file fs now p
         = Inr (p @ ''.'' @ timestamp now @ ''.bak'',
                AList.update (p @ ''.'' @ timestamp now @ ''.bak'') (File c) fs)"
proof -
  let ?b = "p @ ''.'' @ timestamp now @ ''.bak''"
  have ne: "p \<noteq> ?b" by simp
  have "copy2 fs p ?b = write_text fs ?b c"
    using f d ne by (simp add: copy2_def path_isdir_def)
  also have "\<dots> = Inr (AList.update ?b (File c) fs)"
  proof (rule write_text_ok [OF d])
    have "dir_present fs (dirname p)" using f by (rule dir_present_sibling)
    then have "dir_present fs (dirname ?b)" by (simp only: dirname_backup)
    then show "map_of fs ?b \<noteq> None \<or> dir_present fs (dirname ?b)" ..
  qed
  finally show ?thesis
    using f by (simp add: backup_file_def path_exists_def Let_def)
qed

lemmas sanitize_eval = sanitize_input_def dangerous_chars_def remove_char_def

lemma inventory_path_sample:
  "INVENTORY_PATH ''/root/ansible'' = ''/root/ansible/inventory/hosts.ini''"
  by (simp add: INVENTORY_PATH_def INVENTORY_DIR_def path_join_def str_eval)

lemma timestamp_sample: "timestamp sample_now = ''20250307_090501''"
  by code_simp

lemma affirmative_yes: "lower ''yes'' \<in> set [''yes'', ''true'', ''1'']"
  by (simp add: lower_def lower_char_def)

section \<open>Path containment\<close>

lemma split_on_no_sep: "sep \<notin> set s \<Longrightarrow> split_on sep s = [s]"
  by (induction s) auto

lemma split_on_append:
  "split_on sep (a @ sep # b) = split_on sep a @ split_on sep b"
proof (induction a)
  case Nil
  show ?case by simp
next
  case (Cons c cs)
  obtain x xs where sp: "split_on sep cs = x # xs"
    using split_on_nonempty by (cases "split_on sep cs") auto
  show ?case
    using Cons.IH sp by simp
qed

lemma split_on_elems: "l \<in> set (split_on sep s) \<Longrightarrow> sep \<notin> set l"
proof (induction s arbitrary: l)
  case Nil
  then show ?case by simp
next
  case (Cons c cs)
  obtain x xs where sp: "split_on sep cs = x # xs"
    using split_on_nonempty by (cases "split_on sep cs") auto
  have x: "sep \<notin> set x" using Cons.IH [of x] sp by simp
  show ?case
  proof (cases "c = sep")
    case True
    then show ?thesis using Cons.prems Cons.IH by auto
  next
    case False
    then have "l = c # x \<or> l \<in> set xs" using Cons.prems sp by auto
    then show ?thesis using False x Cons.IH [of l] sp by auto
  qed
qed

lemma join_with_snoc:
  "join_with sep (xs @ [y]) = (if xs = [] then y else join_with sep xs @ sep @ y)"
proof (induction xs)
  case Nil
  show ?case by simp
next
  case (Cons x xs)
  show ?case
  proof (cases "xs = []")
    case True
    then show ?thesis by simp
  next
    case False
    then have "join_with sep ((x # xs) @ [y]) = x @ sep @ join_with sep (xs @ [y])"
      by (simp add: join_with_Cons)
    then show ?thesis using False Cons.IH by (simp add: join_with_Cons)
  qed
qed

lemma norm_step_elems:
  "set (norm_step k c acc) \<subseteq> set acc \<union> ({c} - {[], ''.''})"
proof -
  have "set (butlast acc) \<subseteq> set acc"
    by (meson in_set_butlastD subsetI)
  then show ?thesis
    by (auto simp: norm_step_def)
qed

lemma fold_norm_step_elems:
  "set (fold (norm_step k) cs acc) \<subseteq> set acc \<union> (set cs - {[], ''.''})"
proof (induction cs arbitrary: acc)
  case Nil
  show ?case by simp
next
  case (Cons c cs)
  have "set (fold (norm_step k) cs (norm_step k c acc))
        \<subseteq> set (norm_step k c acc) \<union> (set cs - {[], ''.''})"
    by (rule Cons.IH)
  then show ?case
    using norm_step_elems [of k c acc] by auto
qed

lemma join_with_last:
  "xs \<noteq> [] \<Longrightarrow> last xs \<noteq> [] \<Longrightarrow> join_with sep xs \<noteq> [] \<and> last (join_with sep xs) = last (last xs)"
proof (induction xs)
  case Nil
  then show ?case by simp
next
  case (Cons x xs)
  show ?case
  proof (cases "xs = []")
    case True
    then show ?thesis using Cons.prems by simp
  next
    case False
    then have j: "join_with sep (x # xs) = x @ sep @ join_with sep xs"
      by (rule join_with_Cons)
    have "join_with sep xs \<noteq> [] \<and> last (join_with sep xs) = last (last xs)"
      using False Cons.prems Cons.IH by simp
    then show ?thesis using j False by simp
  qed
qed

lemma initial_slashes_replicate:
  assumes k: "k = 1 \<or> k = 2" and r: "rest \<noteq> []" and h: "hd rest \<noteq> CHR ''/''"
  shows "initial_slashes (replicate k CHR ''/'' @ rest) = k"
proof -
  obtain c cs where rest: "rest = c # cs" and c: "c \<noteq> CHR ''/''"
    using r h by (cases rest) auto
  from k show ?thesis
  proof
    assume "k = 1"
    then show ?thesis using c by (simp add: initial_slashes_def startswith_def rest)
  next
    assume "k = 2"
    then have "replicate k CHR ''/'' = ''//''" by (simp add: numeral_2_eq_2)
    then show ?thesis using c \<open>k = 2\<close> by (simp add: initial_slashes_def startswith_def rest)
  qed
qed

lemma initial_slashes_range: "startswith p ''/'' \<Longrightarrow> initial_slashes p = 1 \<or> initial_slashes p = 2"
  by (simp add: initial_slashes_def)

lemma join_with_hd:
  "xs \<noteq> [] \<Longrightarrow> hd xs \<noteq> [] \<Longrightarrow> join_with sep xs \<noteq> [] \<and> hd (join_with sep xs) = hd (hd xs)"
proof -
  assume ne: "xs \<noteq> []" and h: "hd xs \<noteq> []"
  obtain x ys where xs: "xs = x # ys" using ne by (cases xs) auto
  then have x: "x \<noteq> []" using h by simp
  show ?thesis
  proof (cases "ys = []")
    case True
    then show ?thesis using xs x by simp
  next
    case False
    then have "join_with sep xs = x @ sep @ join_with sep ys"
      unfolding xs by (rule join_with_Cons)
    then show ?thesis using x xs by simp
  qed
qed

text \<open>The components that normpath keeps are non-empty and free of separators.\<close>

lemma new_comps_clean:
  assumes "c \<in> set (fold (norm_step k) (split_on CHR ''/'' p) [])"
  shows "c \<noteq> [] \<and> CHR ''/'' \<notin> set c"
proof -
  have "c \<in> set (split_on CHR ''/'' p) - {[], ''.''}"
    using assms fold_norm_step_elems [of k "split_on CHR ''/'' p" "[]"] by auto
  then show ?thesis using split_on_elems by auto
qed

lemma normpath_nonempty_eq:
  "p \<noteq> [] \<Longrightarrow> startswith p ''/'' \<Longrightarrow>
   normpath p = replicate (initial_slashes p) CHR ''/''
                @ join_with ''/'' (fold (norm_step (initial_slashes p)) (split_on CHR ''/'' p) [])"
proof -
  assume p: "p \<noteq> []" and a: "startswith p ''/''"
  have "initial_slashes p \<noteq> 0" using initial_slashes_range [OF a] by auto
  then have "replicate (initial_slashes p) CHR ''/'' \<noteq> []" by simp
  then show ?thesis using p by (simp add: normpath_def Let_def)
qed

lemma endswith_single: "endswith s [c] \<longleftrightarrow> s \<noteq> [] \<and> last s = c"
proof (cases "s = []")
  case True
  then show ?thesis by (simp add: endswith_def)
next
  case False
  then have "drop (length s - 1) s = [last s]"
    by (metis append_butlast_last_id append_eq_conv_conj length_butlast)
  then show ?thesis using False by (auto simp: endswith_def Suc_leI)
qed

lemma normpath_child:
  assumes nb: "normpath base = base" and ab: "startswith base ''/''"
    and n1: "CHR ''/'' \<notin> set name" and n2: "name \<noteq> []"
    and n3: "name \<noteq> ''.''" and n4: "name \<noteq> ''..''"
  shows "normpath (path_join base name)
         = (if endswith base ''/'' then base @ name else base @ ''/'' @ name)"
proof -
  define k where "k = initial_slashes base"
  define nc where "nc = fold (norm_step k) (split_on CHR ''/'' base) []"
  have bne: "base \<noteq> []" using ab by (auto simp: startswith_def)
  have k12: "k = 1 \<or> k = 2" unfolding k_def using ab by (rule initial_slashes_range)
  have beq: "base = replicate k CHR ''/'' @ join_with ''/'' nc"
    using normpath_nonempty_eq [OF bne ab] nb unfolding k_def nc_def by simp
  have hn: "hd name \<noteq> CHR ''/''" using n1 n2 by (cases name) auto
  have pj: "\<not> startswith name ''/''" using n1 n2 by (cases name) (auto simp: startswith_def)
  have stepn: "norm_step k name acc = acc @ [name]" for acc
    using n2 n3 n4 by (simp add: norm_step_def)
  show ?thesis
  proof (cases "nc = []")
    case True
    then have b: "base = replicate k CHR ''/''" using beq by simp
    have e: "endswith base ''/''"
      using k12 unfolding b by (auto simp: endswith_def numeral_2_eq_2)
    have path: "path_join base name = replicate k CHR ''/'' @ name"
      using pj e by (simp add: path_join_def b)
    have isl: "initial_slashes (replicate k CHR ''/'' @ name) = k"
      using k12 n2 hn by (rule initial_slashes_replicate)
    have sp: "fold (norm_step k) (split_on CHR ''/'' (replicate k CHR ''/'' @ name)) [] = [name]"
      using k12 n1 n2 n3 n4 by (auto simp: numeral_2_eq_2 split_on_no_sep norm_step_def)
    have "normpath (replicate k CHR ''/'' @ name) = replicate k CHR ''/'' @ name"
      using n2 by (simp add: normpath_def Let_def isl sp)
    then show ?thesis using e path b by simp
  next
    case False
    have lastc: "last nc \<noteq> [] \<and> CHR ''/'' \<notin> set (last nc)"
      using False new_comps_clean [of "last nc" k base] unfolding nc_def by simp
    have hdc: "hd nc \<noteq> [] \<and> CHR ''/'' \<notin> set (hd nc)"
      using False new_comps_clean [of "hd nc" k base] unfolding nc_def by simp
    have jl: "join_with ''/'' nc \<noteq> [] \<and> last (join_with ''/'' nc) = last (last nc)"
      using False lastc by (simp add: join_with_last)
    have jh: "hd (join_with ''/'' nc) = hd (hd nc)"
      using False hdc by (simp add: join_with_hd)
    have "last base = last (last nc)"
      using jl by (subst beq) simp
    moreover have "last (last nc) \<noteq> CHR ''/''"
      using lastc by (metis last_in_set)
    ultimately have ne: "\<not> endswith base ''/''"
      using endswith_single [of base "CHR ''/''"] by simp
    have path: "path_join base name = base @ ''/'' @ name"
      using pj ne bne by (simp add: path_join_def)
    let ?rest = "join_with ''/'' nc @ ''/'' @ name"
    have pr: "base @ ''/'' @ name = replicate k CHR ''/'' @ ?rest"
      by (subst beq) simp
    have "hd (hd nc) \<noteq> CHR ''/''"
      using hdc by (metis hd_in_set)
    then have "hd ?rest \<noteq> CHR ''/''" using jl jh by simp
    moreover have "?rest \<noteq> []" by simp
    ultimately have isl: "initial_slashes (replicate k CHR ''/'' @ ?rest) = k"
      using k12 by (intro initial_slashes_replicate)
    have "split_on CHR ''/'' (base @ ''/'' @ name) = split_on CHR ''/'' base @ [name]"
      using n1 by (simp add: split_on_append split_on_no_sep)
    then have fo: "fold (norm_step k) (split_on CHR ''/'' (base @ ''/'' @ name)) [] = nc @ [name]"
      by (simp add: nc_def stepn)
    have jn: "join_with ''/'' (nc @ [name]) = ?rest"
      using False by (simp add: join_with_snoc)
    have isl': "initial_slashes (base @ ''/'' @ name) = k"
      unfolding pr by (rule isl)
    have sw: "startswith (base @ ''/'' @ name) ''/''"
      using ab bne by (cases base) (auto simp: startswith_def)
    have "base @ ''/'' @ name \<noteq> []" by simp
    then have "normpath (base @ ''/'' @ name)
          = replicate (initial_slashes (base @ ''/'' @ name)) CHR ''/''
            @ join_with ''/'' (fold (norm_step (initial_slashes (base @ ''/'' @ name)))
                                 (split_on CHR ''/'' (base @ ''/'' @ name)) [])"
      using sw by (rule normpath_nonempty_eq)
    also have "\<dots> = replicate k CHR ''/'' @ join_with ''/'' (nc @ [name])"
      unfolding isl' fo ..
    also have "\<dots> = replicate k CHR ''/'' @ ?rest"
      by (simp only: jn)
    also have "\<dots> = base @ ''/'' @ name"
      by (rule pr [symmetric])
    finally show ?thesis using ne path by simp
  qed
qed

lemma normpath_self_slash:
  assumes nb: "normpath base = base" and ab: "startswith base ''/''"
  shows "normpath (path_join base []) = base"
proof (cases "endswith base ''/''")
  case True
  then show ?thesis using nb by (simp add: path_join_def startswith_def)
next
  case False
  define k where "k = initial_slashes base"
  define nc where "nc = fold (norm_step k) (split_on CHR ''/'' base) []"
  have bne: "base \<noteq> []" using ab by (auto simp: startswith_def)
  have k12: "k = 1 \<or> k = 2" unfolding k_def using ab by (rule initial_slashes_range)
  have beq: "base = replicate k CHR ''/'' @ join_with ''/'' nc"
    using normpath_nonempty_eq [OF bne ab] nb unfolding k_def nc_def by simp
  have ncne: "nc \<noteq> []"
  proof
    assume "nc = []"
    then have "base = replicate k CHR ''/''" using beq by simp
    then have "endswith base ''/''"
      using k12 by (auto simp: endswith_def numeral_2_eq_2)
    then show False using False by simp
  qed
  have hdc: "hd nc \<noteq> [] \<and> CHR ''/'' \<notin> set (hd nc)"
    using ncne new_comps_clean [of "hd nc" k base] unfolding nc_def by simp
  have jh: "join_with ''/'' nc \<noteq> [] \<and> hd (join_with ''/'' nc) = hd (hd nc)"
    using ncne hdc by (simp add: join_with_hd)
  have path: "path_join base [] = base @ ''/''"
    using False bne by (simp add: path_join_def startswith_def)
  let ?rest = "join_with ''/'' nc @ ''/''"
  have pr: "base @ ''/'' = replicate k CHR ''/'' @ ?rest"
    by (subst beq) simp
  have "hd (hd nc) \<noteq> CHR ''/''"
    using hdc by (metis hd_in_set)
  then have "hd ?rest \<noteq> CHR ''/''" using jh by simp
  moreover have "?rest \<noteq> []" by simp
  ultimately have isl: "initial_slashes (replicate k CHR ''/'' @ ?rest) = k"
    using k12 by (intro initial_slashes_replicate)
  have isl': "initial_slashes (base @ ''/'') = k"
    unfolding pr by (rule isl)
  have "split_on CHR ''/'' (base @ ''/'') = split_on CHR ''/'' base @ [[]]"
    using split_on_append [of "CHR ''/''" base "[]"] by simp
  then have fo: "fold (norm_step k) (split_on CHR ''/'' (base @ ''/'')) [] = nc"
    by (simp add: nc_def norm_step_def)
  have sw: "startswith (base @ ''/'') ''/''"
    using ab bne by (cases base) (auto simp: startswith_def)
  have "base @ ''/'' \<noteq> []" by simp
  then have "normpath (base @ ''/'')
        = replicate (initial_slashes (base @ ''/'')) CHR ''/''
          @ join_with ''/'' (fold (norm_step (initial_slashes (base @ ''/'')))
                               (split_on CHR ''/'' (base @ ''/'')) [])"
    using sw by (rule normpath_nonempty_eq)
  also have "\<dots> = replicate k CHR ''/'' @ join_with ''/'' nc"
    unfolding isl' fo ..
  also have "\<dots> = base" by (rule beq [symmetric])
  finally show ?thesis using path by simp
qed

lemma safe_char_not_slash: "safe_char c \<Longrightarrow> c \<noteq> CHR ''/''"
  by (auto simp: safe_char_def)

lemma sanitize_filename_clean:
  "CHR ''/'' \<notin> set (sanitize_filename f) \<and> sanitize_filename f \<noteq> ''.''
   \<and> sanitize_filename f \<noteq> ''..''"
proof -
  let ?P = "\<lambda>c. c = CHR ''_'' \<or> c = CHR ''.''"
  let ?m = "map (\<lambda>c. if safe_char c then c else CHR ''_'') f"
  have eq: "sanitize_filename f = strip_by ?P ?m"
    by (cases "f = []") (simp_all add: sanitize_filename_def strip_by_def lstrip_by_def rstrip_by_def)
  have "CHR ''/'' \<notin> set ?m"
    using safe_char_not_slash by auto
  then have 1: "CHR ''/'' \<notin> set (sanitize_filename f)"
    unfolding eq using set_strip_by [of ?P ?m] by blast
  have 2: "sanitize_filename f \<noteq> ''.''"
    unfolding eq using strip_by_not_hd [of ?P ?m] by auto
  have 3: "sanitize_filename f \<noteq> ''..''"
    unfolding eq using strip_by_not_hd [of ?P ?m] by auto
  from 1 2 3 show ?thesis by simp
qed

lemma startswith_append: "startswith (a @ b) a"
  by (simp add: startswith_def)

lemma startswith_refl: "startswith a a"
  by (simp add: startswith_def)

lemma safe_path_join_child:
  assumes nb: "normpath base = base" and ab: "startswith base ''/''"
  shows "safe_path_join base filename =
           Inr (if sanitize_filename filename = [] then base
                else if endswith base ''/'' then base @ sanitize_filename filename
                else base @ ''/'' @ sanitize_filename filename)"
proof (cases "sanitize_filename filename = []")
  case True
  have "normpath (path_join base []) = base" using nb ab by (rule normpath_self_slash)
  then show ?thesis
    using True by (simp add: safe_path_join_def Let_def nb startswith_refl)
next
  case False
  have c: "CHR ''/'' \<notin> set (sanitize_filename filename)"
    "sanitize_filename filename \<noteq> ''.''" "sanitize_filename filename \<noteq> ''..''"
    using sanitize_filename_clean [of filename] by simp_all
  have n: "normpath (path_join base (sanitize_filename filename))
        = (if endswith base ''/'' then base @ sanitize_filename filename
           else base @ ''/'' @ sanitize_filename filename)"
    using nb ab c(1) False c(2) c(3) by (rule normpath_child)
  show ?thesis
    using False startswith_append [of base]
    by (simp add: safe_path_join_def Let_def nb n)
qed

text \<open>A path that does not begin with the root's string is outside the root.\<close>

lemma within_root_startswith: "within_root root p \<Longrightarrow> startswith p root"
proof -
  assume "within_root root p"
  then consider "p = root" | "startswith p (root @ ''/'')"
    by (auto simp: within_root_def)
  then show ?thesis
  proof cases
    case 1
    then show ?thesis by (simp add: startswith_def)
  next
    case 2
    then obtain b where "p = (root @ ''/'') @ b"
      unfolding startswith_iff by auto
    then have "p = root @ (''/'' @ b)" by simp
    then show ?thesis unfolding startswith_iff by (intro exI)
  qed
qed

text \<open>
  C1 (amended). Path resolution refuses a path whose normalised join with the root does
  not begin with the root's path string (such a path is outside the root; outside paths
  that merely extend the root's name are left aside). For a non-empty path of that kind the inline
  checks of \<open>ansible_read_file\<close> and \<open>ansible_write_file\<close> (the latter given non-empty
  content) answer with the access-denied error, whatever the store holds, and the
  write leaves the store as it is. \<open>safe_path_join\<close> raises the path-traversal error
  when the normalised join of the sanitised name does not begin with the normalised
  base. It sanitises the name first, so that no separator is left in it: under a
  normalised absolute base a name with \<open>..\<close> segments is not refused, and the result is
  the base itself or a path directly below it.
\<close>

theorem path_guard_refuses:
  "(normpath base = base \<and> startswith base ''/'' \<longrightarrow>
      safe_path_join base filename =
        Inr (if sanitize_filename filename = [] then base
             else if endswith base ''/'' then base @ sanitize_filename filename
             else base @ ''/'' @ sanitize_filename filename)
      \<and> CHR ''/'' \<notin> set (sanitize_filename filename))
   \<and> (\<not> startswith (normpath (path_join base (sanitize_filename filename))) (normpath base) \<longrightarrow>
      safe_path_join base filename = Inl (ValueError ''Path traversal detected''))
   \<and> (file_path \<noteq> []
       \<and> \<not> startswith (normpath (path_join ANSIBLE_DIR (lstrip_by (\<lambda>c. c = CHR ''/'') file_path)))
             ANSIBLE_DIR \<longrightarrow>
      ansible_read_file ANSIBLE_DIR fs file_path
        = Inr ''ERROR: Access denied - path must be within Ansible directory.''
      \<and> (content \<noteq> [] \<longrightarrow>
          ansible_write_file ANSIBLE_DIR fs now file_path content create_backup
            = Inr (''ERROR: Access denied - path must be within Ansible directory.'', fs)))"
proof (intro conjI impI)
  assume a: "normpath base = base \<and> startswith base ''/''"
  then show "safe_path_join base filename =
        Inr (if sanitize_filename filename = [] then base
             else if endswith base ''/'' then base @ sanitize_filename filename
             else base @ ''/'' @ sanitize_filename filename)"
    by (simp add: safe_path_join_child)
  show "CHR ''/'' \<notin> set (sanitize_filename filename)"
    using sanitize_filename_clean [of filename] by simp
next
  assume "\<not> startswith (normpath (path_join base (sanitize_filename filename))) (normpath base)"
  then show "safe_path_join base filename = Inl (ValueError ''Path traversal detected'')"
    by (simp add: safe_path_join_def Let_def)
next
  assume a: "file_path \<noteq> []
       \<and> \<not> startswith (normpath (path_join ANSIBLE_DIR (lstrip_by (\<lambda>c. c = CHR ''/'') file_path)))
             ANSIBLE_DIR"
  then show "ansible_read_file ANSIBLE_DIR fs file_path
        = Inr ''ERROR: Access denied - path must be within Ansible directory.''"
    by (simp add: ansible_read_file_def Let_def)
  assume "content \<noteq> []"
  then show "ansible_write_file ANSIBLE_DIR fs now file_path content create_backup
            = Inr (''ERROR: Access denied - path must be within Ansible directory.'', fs)"
    using a by (simp add: ansible_write_file_def Let_def)
qed

lemma playbooks_norm: "normpath ''/root/ansible/playbooks'' = ''/root/ansible/playbooks''"
  by (simp add: str_eval path_eval)

lemma sanitize_filename_sample: "sanitize_filename ''../../etc/passwd'' = ''etc_passwd''"
  by (simp add: sanitize_filename_def safe_char_def strip_by_def lstrip_by_def rstrip_by_def)

theorem path_guard_refuses_witness:
  "normpath ''/root/ansible/playbooks'' = ''/root/ansible/playbooks''
   \<and> startswith ''/root/ansible/playbooks'' ''/''
   \<and> safe_path_join ''/root/ansible/playbooks'' ''../../etc/passwd''
       = Inr ''/root/ansible/playbooks/etc_passwd''
   \<and> \<not> startswith (normpath (path_join ''.'' (sanitize_filename ''x''))) (normpath ''.'')
   \<and> safe_path_join ''.'' ''x'' = Inl (ValueError ''Path traversal detected'')
   \<and> ''../../etc/passwd'' \<noteq> []
   \<and> \<not> startswith (normpath (path_join ''/root/ansible''
                          (lstrip_by (\<lambda>c. c = CHR ''/'') ''../../etc/passwd''))) ''/root/ansible''
   \<and> ansible_read_file ''/root/ansible'' [(''/etc/passwd'', File ''root:x:0:0'')] ''../../etc/passwd''
       = Inr ''ERROR: Access denied - path must be within Ansible directory.''
   \<and> ansible_write_file ''/root/ansible'' [(''/etc/passwd'', File ''root:x:0:0'')] sample_now
        ''../../etc/passwd'' ''data'' ''yes''
       = Inr (''ERROR: Access denied - path must be within Ansible directory.'',
              [(''/etc/passwd'', File ''root:x:0:0'')])"
proof -
  have ab: "startswith ''/root/ansible/playbooks'' ''/''" by (simp add: startswith_def)
  have e: "\<not> endswith ''/root/ansible/playbooks'' ''/''" by (simp add: endswith_def)
  have d: "\<not> startswith (normpath (path_join ''.'' (sanitize_filename ''x''))) (normpath ''.'')"
    by (simp add: sanitize_filename_def safe_char_def strip_by_def lstrip_by_def rstrip_by_def
        str_eval path_eval)
  have f: "''../../etc/passwd'' \<noteq> []" by simp
  have o: "\<not> startswith (normpath (path_join ''/root/ansible''
                          (lstrip_by (\<lambda>c. c = CHR ''/'') ''../../etc/passwd''))) ''/root/ansible''"
    by (simp add: lstrip_by_def str_eval path_eval)
  note t = path_guard_refuses [of "''/root/ansible/playbooks''" "''../../etc/passwd''"
             "''../../etc/passwd''" "''/root/ansible''" "[(''/etc/passwd'', File ''root:x:0:0'')]"
             "''data''" sample_now "''yes''"]
  note u = path_guard_refuses [of "''.''" "''x''" "''../../etc/passwd''" "''/root/ansible''"
             "[(''/etc/passwd'', File ''root:x:0:0'')]" "''data''" sample_now "''yes''"]
  have 1: "safe_path_join ''/root/ansible/playbooks'' ''../../etc/passwd''
       = Inr ''/root/ansible/playbooks/etc_passwd''"
    using t playbooks_norm ab e by (simp add: sanitize_filename_sample)
  have 2: "safe_path_join ''.'' ''x'' = Inl (ValueError ''Path traversal detected'')"
    using u d by blast
  have 3: "ansible_read_file ''/root/ansible'' [(''/etc/passwd'', File ''root:x:0:0'')] ''../../etc/passwd''
       = Inr ''ERROR: Access denied - path must be within Ansible directory.''"
    using t f o by blast
  have 4: "ansible_write_file ''/root/ansible'' [(''/etc/passwd'', File ''root:x:0:0'')] sample_now
        ''../../etc/passwd'' ''data'' ''yes''
       = Inr (''ERROR: Access denied - path must be within Ansible directory.'',
              [(''/etc/passwd'', File ''root:x:0:0'')])"
    using t f o by auto
  show ?thesis
    using playbooks_norm ab d f o 1 2 3 4 by (intro conjI)
qed

text \<open>
  C1 as stated fails for \<open>safe_path_join\<close>: the raw name \<open>../../etc/passwd\<close> joined with
  the playbooks directory normalises to a path outside that directory and outside the
  root, and the call does not fail; it returns a path inside the directory.
\<close>

theorem safe_path_join_sanitises_dotdot:
  "normpath (path_join ''/root/ansible/playbooks'' ''../../etc/passwd'') = ''/root/etc/passwd''
   \<and> \<not> within_root ''/root/ansible/playbooks'' ''/root/etc/passwd''
   \<and> \<not> within_root ''/root/ansible'' ''/root/etc/passwd''
   \<and> safe_path_join ''/root/ansible/playbooks'' ''../../etc/passwd''
       = Inr ''/root/ansible/playbooks/etc_passwd''
   \<and> safe_path_join ''/root/ansible/playbooks'' ''../../etc/passwd''
       \<noteq> Inl (ValueError ''Path traversal detected'')"
proof -
  have 1: "normpath (path_join ''/root/ansible/playbooks'' ''../../etc/passwd'') = ''/root/etc/passwd''"
    by (simp add: str_eval path_eval)
  have 2: "\<not> within_root ''/root/ansible/playbooks'' ''/root/etc/passwd''"
    by (simp add: within_root_def startswith_def)
  have 3: "safe_path_join ''/root/ansible/playbooks'' ''../../etc/passwd''
       = Inr ''/root/ansible/playbooks/etc_passwd''"
    by (simp add: safe_path_join_def sanitize_filename_sample Let_def str_eval path_eval)
  have 4: "\<not> within_root ''/root/ansible'' ''/root/etc/passwd''"
    by (simp add: within_root_def startswith_def)
  show ?thesis using 1 2 3 4 by simp
qed

text \<open>
  The inline check compares strings, not path components. Under the root
  \<open>/root/ansible\<close> the path \<open>../ansible_old/hosts.ini\<close> normalises to
  \<open>/root/ansible_old/hosts.ini\<close>, which is outside the root and still begins with the
  root's string: the check lets it through, the file is read, and a write creates a
  file there.
\<close>

lemma read_file_prefix_escape:
  "normpath (path_join ''/root/ansible'' ''../ansible_old/hosts.ini'') = ''/root/ansible_old/hosts.ini''
   \<and> \<not> within_root ''/root/ansible'' ''/root/ansible_old/hosts.ini''
   \<and> ansible_read_file ''/root/ansible'' [(''/root/ansible_old/hosts.ini'', File ''secret'')]
        ''../ansible_old/hosts.ini''
       = Inr (''=== FILE: ../ansible_old/hosts.ini ==='' @ [nl, nl] @ ''secret'')
   \<and> ansible_write_file ''/root/ansible'' [] sample_now ''../ansible_old/x'' ''data'' ''yes''
       = Inr (''SUCCESS: File written to ../ansible_old/x'',
              [(''/root'', Dir), (''/root/ansible_old'', Dir), (''/root/ansible_old/x'', File ''data'')])"
proof -
  have n: "normpath (path_join ''/root/ansible'' ''../ansible_old/hosts.ini'') = ''/root/ansible_old/hosts.ini''"
    by (simp add: str_eval path_eval)
  have w: "\<not> within_root ''/root/ansible'' ''/root/ansible_old/hosts.ini''"
    by (simp add: within_root_def str_eval)
  have r: "ansible_read_file ''/root/ansible'' [(''/root/ansible_old/hosts.ini'', File ''secret'')]
        ''../ansible_old/hosts.ini''
       = Inr (''=== FILE: ../ansible_old/hosts.ini ==='' @ [nl, nl] @ ''secret'')"
    unfolding ansible_read_file_def Let_def
    by (simp add: n lstrip_by_def startswith_def path_exists_def path_isdir_def read_text_def)
  have wr: "ansible_write_file ''/root/ansible'' [] sample_now ''../ansible_old/x'' ''data'' ''yes''
       = Inr (''SUCCESS: File written to ../ansible_old/x'',
              [(''/root'', Dir), (''/root/ansible_old'', Dir), (''/root/ansible_old/x'', File ''data'')])"
    by code_simp
  show ?thesis using n w r wr by simp
qed

section \<open>Confirmation of destructive operations\<close>

text \<open>
  C8 (amended). A destructive operation (\<open>ansible_remove_host\<close>, \<open>ansible_delete_playbook\<close>)
  called with a non-empty name and a confirmation that is not \<open>yes\<close>, \<open>true\<close> or \<open>1\<close> (in
  any case) leaves the store as it is and returns the warning that names what would be
  removed.
\<close>

theorem destructive_without_confirmation:
  assumes c: "lower confirm \<notin> set [''yes'', ''true'', ''1'']" and n: "name \<noteq> []"
  shows "ansible_remove_host ANSIBLE_DIR fs now name confirm
           = Inr (''WARNING: This will remove '' @ [quote] @ name @ [quote]
                  @ '' from inventory. Set confirm=yes to proceed.'', fs)
         \<and> ansible_delete_playbook ANSIBLE_DIR fs now name confirm
           = Inr (''WARNING: This will delete '' @ [quote] @ name @ [quote]
                  @ ''. Set confirm=yes to proceed.'', fs)"
  using c n by (simp add: ansible_remove_host_def ansible_delete_playbook_def)

theorem destructive_without_confirmation_witness:
  "lower ''no'' \<notin> set [''yes'', ''true'', ''1''] \<and> ''sw1'' \<noteq> []
   \<and> ansible_remove_host ''/root/ansible''
        [(''/root/ansible/inventory/hosts.ini'', File ''sw1 ansible_host=10.0.0.1'')] sample_now ''sw1'' ''no''
       = Inr (''WARNING: This will remove '' @ [quote] @ ''sw1'' @ [quote]
              @ '' from inventory. Set confirm=yes to proceed.'',
              [(''/root/ansible/inventory/hosts.ini'', File ''sw1 ansible_host=10.0.0.1'')])
   \<and> ansible_delete_playbook ''/root/ansible''
        [(''/root/ansible/inventory/hosts.ini'', File ''sw1 ansible_host=10.0.0.1'')] sample_now ''sw1'' ''no''
       = Inr (''WARNING: This will delete '' @ [quote] @ ''sw1'' @ [quote]
              @ ''. Set confirm=yes to proceed.'',
              [(''/root/ansible/inventory/hosts.ini'', File ''sw1 ansible_host=10.0.0.1'')])"
proof -
  have c: "lower ''no'' \<notin> set [''yes'', ''true'', ''1'']"
    by (simp add: lower_def lower_char_def)
  have n: "''sw1'' \<noteq> []" by simp
  show ?thesis
    using destructive_without_confirmation [OF c n, of "''/root/ansible''"
      "[(''/root/ansible/inventory/hosts.ini'', File ''sw1 ansible_host=10.0.0.1'')]" sample_now] c
    by simp
qed

text \<open>
  C8 as stated fails for an empty name: the missing-name check comes before the
  confirmation check, so the answer is an error message, not a warning.
\<close>

theorem unnamed_removal_is_error:
  "lower ''no'' \<notin> set [''yes'', ''true'', ''1'']
   \<and> ansible_remove_host ''/root/ansible''
        [(''/root/ansible/inventory/hosts.ini'', File ''sw1 ansible_host=10.0.0.1'')] sample_now [] ''no''
       = Inr (''ERROR: No hostname specified.'',
              [(''/root/ansible/inventory/hosts.ini'', File ''sw1 ansible_host=10.0.0.1'')])
   \<and> \<not> startswith ''ERROR: No hostname specified.'' ''WARNING''"
  by (simp add: ansible_remove_host_def lower_def lower_char_def startswith_def)

section \<open>Adding a host\<close>

text \<open>
  C6 (amended). When the host name and the address are both given (non-empty) and the
  inventory text, as read, contains the sanitised host name anywhere as a substring,
  \<open>ansible_add_host\<close> answers that the host already exists and leaves the store as it is:
  no backup, no write. An absent inventory file counts as the empty text.
\<close>

theorem add_host_duplicate:
  assumes h: "hostname \<noteq> []" and a: "ansible_host \<noteq> []"
    and doc: "(map_of fs (INVENTORY_PATH ANSIBLE_DIR) = Some (File c) \<and> doc = universal_newlines c)
              \<or> (map_of fs (INVENTORY_PATH ANSIBLE_DIR) = None \<and> doc = [])"
    and dup: "str_in (sanitize_input hostname) doc"
  shows "ansible_add_host ANSIBLE_DIR fs now hostname ansible_host group_name extra_vars
         = Inr (''ERROR: Host '' @ [quote] @ sanitize_input hostname @ [quote]
                @ '' already exists in inventory.'', fs)"
proof -
  have "(if path_exists fs (INVENTORY_PATH ANSIBLE_DIR)
         then read_text fs (INVENTORY_PATH ANSIBLE_DIR) else Inr []) = Inr doc"
    using doc by (auto simp: path_exists_def read_text_def)
  then show ?thesis
    using h a dup by (simp add: ansible_add_host_def Let_def)
qed

theorem add_host_duplicate_witness:
  "''sw1'' \<noteq> [] \<and> ''10.0.0.9'' \<noteq> []
   \<and> str_in (sanitize_input ''sw1'') (universal_newlines ''# uplink of sw10'')
   \<and> ansible_add_host ''/root/ansible''
        [(''/root/ansible/inventory/hosts.ini'', File ''# uplink of sw10'')]
        sample_now ''sw1'' ''10.0.0.9'' ''core'' []
      = Inr (''ERROR: Host '' @ [quote] @ ''sw1'' @ [quote] @ '' already exists in inventory.'',
             [(''/root/ansible/inventory/hosts.ini'', File ''# uplink of sw10'')])"
proof -
  let ?fs = "[(''/root/ansible/inventory/hosts.ini'', File ''# uplink of sw10'')]"
  have s1: "sanitize_input ''sw1'' = ''sw1''" by (simp add: sanitize_eval str_eval)
  have h: "''sw1'' \<noteq> []" and a: "''10.0.0.9'' \<noteq> []" by simp_all
  have doc: "(map_of ?fs (INVENTORY_PATH ''/root/ansible'') = Some (File ''# uplink of sw10'')
              \<and> universal_newlines ''# uplink of sw10'' = universal_newlines ''# uplink of sw10'')
             \<or> (map_of ?fs (INVENTORY_PATH ''/root/ansible'') = None
                 \<and> universal_newlines ''# uplink of sw10'' = [])"
    by (simp add: inventory_path_sample)
  have dup: "str_in (sanitize_input ''sw1'') (universal_newlines ''# uplink of sw10'')"
    by (simp add: s1 startswith_def)
  show ?thesis
    using add_host_duplicate [OF h a doc dup, of sample_now "''core''" "[]"] dup
    by (simp add: s1)
qed

text \<open>
  C6 as stated fails when the address is missing: that check comes first, and its
  message is returned although the inventory contains the host name.
\<close>

theorem add_host_duplicate_without_address:
  "str_in (sanitize_input ''sw1'') ''sw1 ansible_host=10.0.0.1''
   \<and> ansible_add_host ''/root/ansible''
        [(''/root/ansible/inventory/hosts.ini'', File ''sw1 ansible_host=10.0.0.1'')]
        sample_now ''sw1'' [] ''core'' []
      = Inr (''ERROR: No ansible_host (IP address) specified.'',
             [(''/root/ansible/inventory/hosts.ini'', File ''sw1 ansible_host=10.0.0.1'')])
   \<and> ''ERROR: No ansible_host (IP address) specified.''
      \<noteq> ''ERROR: Host '' @ [quote] @ ''sw1'' @ [quote] @ '' already exists in inventory.''"
proof -
  have s1: "sanitize_input ''sw1'' = ''sw1''" by (simp add: sanitize_eval str_eval)
  show ?thesis
    by (simp add: s1 startswith_def ansible_add_host_def)
qed

lemma fold_add_host_step:
  "fold (add_host_step h r) ls (acc, g)
   = (acc @ concat (map (\<lambda>l. if strip l = h then [l, r] else [l]) ls),
      g \<or> (\<exists>l \<in> set ls. strip l = h))"
proof (induction ls arbitrary: acc g)
  case Nil
  show ?case by simp
next
  case (Cons l ls)
  show ?case
  proof (cases "strip l = h")
    case True
    then have "add_host_step h r l (acc, g) = (acc @ [l, r], True)"
      by (simp add: add_host_step_def)
    then show ?thesis using True Cons.IH [of "acc @ [l, r]" True] by simp
  next
    case False
    then have "add_host_step h r l (acc, g) = (acc @ [l], g)"
      by (simp add: add_host_step_def)
    then show ?thesis using False Cons.IH [of "acc @ [l]" g] by simp
  qed
qed

lemma concat_singletons:
  "\<forall>l \<in> set ls. \<not> P l \<Longrightarrow> concat (map (\<lambda>l. if P l then [l, r] else [l]) ls) = ls"
  by (induction ls) simp_all

lemma add_host_lines_eq:
  "add_host_lines h r ls =
     (if \<exists>l \<in> set ls. strip l = h
      then concat (map (\<lambda>l. if strip l = h then [l, r] else [l]) ls)
      else (if ls \<noteq> [] \<and> strip (last ls) \<noteq> [] then ls @ [[]] else ls) @ [h, r])"
proof (cases "\<exists>l \<in> set ls. strip l = h")
  case True
  then show ?thesis
    unfolding add_host_lines_def Let_def fold_add_host_step by simp
next
  case False
  then have "concat (map (\<lambda>l. if strip l = h then [l, r] else [l]) ls) = ls"
    using concat_singletons [of ls "\<lambda>l. strip l = h" r] by simp
  then show ?thesis
    using False unfolding add_host_lines_def Let_def fold_add_host_step by simp
qed

text \<open>
  C3 (amended). Let the address be given (non-empty), let the inventory file exist, or
  be absent while its directory is present, and let the inventory text as text mode
  reads it (\<open>\r\n\<close> and \<open>\r\<close> read as \<open>\n\<close>; the empty text for an absent file) not
  contain the sanitised host name. \<open>ansible_add_host\<close> then edits the lines of that
  text as follows. If some line, stripped of its surrounding whitespace, equals the
  group header \<open>[group]\<close>, the record line is inserted right after every such line.
  Otherwise a blank line is appended when the last line is not blank, then the header,
  then the record line. Every line of the text as read is kept, unchanged and in
  order. The file receives the edited lines joined by newlines, after a backup of the
  old file when there was one.
\<close>

theorem add_host_edit:
  assumes a: "ansible_host \<noteq> []"
    and doc: "(map_of fs (INVENTORY_PATH ANSIBLE_DIR) = Some (File c) \<and> doc = universal_newlines c
               \<and> map_of fs (INVENTORY_PATH ANSIBLE_DIR @ ''.'' @ timestamp now @ ''.bak'') \<noteq> Some Dir
               \<and> fs1 = AList.update (INVENTORY_PATH ANSIBLE_DIR @ ''.'' @ timestamp now @ ''.bak'') (File c) fs)
              \<or> (map_of fs (INVENTORY_PATH ANSIBLE_DIR) = None
                  \<and> dir_present fs (dirname (INVENTORY_PATH ANSIBLE_DIR)) \<and> doc = [] \<and> fs1 = fs)"
    and nodup: "\<not> str_in (sanitize_input hostname) doc"
    and g: "group_header = ''['' @ (if sanitize_input group_name \<noteq> [] then sanitize_input group_name
                                     else ''all'') @ '']''"
    and r: "host_line = sanitize_input hostname @ '' ansible_host='' @ sanitize_input ansible_host
                        @ (if extra_vars \<noteq> [] then '' '' @ sanitize_input extra_vars else [])"
    and l: "lines = split_on nl doc"
  shows "add_host_lines group_header host_line lines =
           (if \<exists>line \<in> set lines. strip line = group_header
            then concat (map (\<lambda>line. if strip line = group_header then [line, host_line] else [line]) lines)
            else (if strip (last lines) \<noteq> [] then lines @ [[]] else lines) @ [group_header, host_line])
         \<and> ansible_add_host ANSIBLE_DIR fs now hostname ansible_host group_name extra_vars =
             Inr (''SUCCESS: Added host '' @ [quote] @ sanitize_input hostname @ [quote] @ '' (''
                  @ sanitize_input ansible_host @ '') to group '' @ [quote]
                  @ (if sanitize_input group_name \<noteq> [] then sanitize_input group_name else ''all'')
                  @ [quote],
                  AList.update (INVENTORY_PATH ANSIBLE_DIR)
                    (File (join_with [nl] (add_host_lines group_header host_line lines))) fs1)"
proof
  have "lines \<noteq> []" unfolding l by (rule split_on_nonempty)
  then show "add_host_lines group_header host_line lines =
           (if \<exists>line \<in> set lines. strip line = group_header
            then concat (map (\<lambda>line. if strip line = group_header then [line, host_line] else [line]) lines)
            else (if strip (last lines) \<noteq> [] then lines @ [[]] else lines) @ [group_header, host_line])"
    by (simp add: add_host_lines_eq)
next
  let ?P = "INVENTORY_PATH ANSIBLE_DIR"
  have h: "hostname \<noteq> []"
  proof
    assume "hostname = []"
    then have "sanitize_input hostname = []" by (simp add: sanitize_input_def)
    then have "str_in (sanitize_input hostname) doc" by (cases doc) (simp_all add: startswith_def)
    then show False using nodup by simp
  qed
  have rd: "(if path_exists fs ?P then read_text fs ?P else Inr []) = Inr doc"
    using doc by (auto simp: path_exists_def read_text_def)
  have bk: "\<exists>b. backup_file fs now ?P = Inr (b, fs1)"
    using doc backup_file_file [of fs ?P c now] backup_file_absent [of fs ?P now] by auto
  then obtain b where b: "backup_file fs now ?P = Inr (b, fs1)" ..
  have nd: "map_of fs1 ?P \<noteq> Some Dir"
    using doc by (auto simp: update_conv')
  have pr: "map_of fs1 ?P \<noteq> None \<or> dir_present fs1 (dirname ?P)"
    using doc by (auto simp: update_conv')
  have wr: "write_text fs1 ?P t = Inr (AList.update ?P (File t) fs1)" for t
    using nd pr by (rule write_text_ok)
  show "ansible_add_host ANSIBLE_DIR fs now hostname ansible_host group_name extra_vars =
             Inr (''SUCCESS: Added host '' @ [quote] @ sanitize_input hostname @ [quote] @ '' (''
                  @ sanitize_input ansible_host @ '') to group '' @ [quote]
                  @ (if sanitize_input group_name \<noteq> [] then sanitize_input group_name else ''all'')
                  @ [quote],
                  AList.update (INVENTORY_PATH ANSIBLE_DIR)
                    (File (join_with [nl] (add_host_lines group_header host_line lines))) fs1)"
    unfolding ansible_add_host_def Let_def rd g r l
    using h a nodup by (simp add: b wr)
qed


text \<open>
  The scenario of the specification: the empty inventory and
  \<open>addHost("sw1", "10.0.0.1", "core", "")\<close>.
\<close>

theorem add_host_edit_witness:
  "''10.0.0.1'' \<noteq> []
   \<and> map_of [(''/root/ansible/inventory/hosts.ini'', File [])] (INVENTORY_PATH ''/root/ansible'')
       = Some (File [])
   \<and> \<not> str_in (sanitize_input ''sw1'') (universal_newlines [])
   \<and> ansible_add_host ''/root/ansible'' [(''/root/ansible/inventory/hosts.ini'', File [])]
        sample_now ''sw1'' ''10.0.0.1'' ''core'' [] =
       Inr (''SUCCESS: Added host '' @ [quote] @ ''sw1'' @ [quote] @ '' (10.0.0.1) to group ''
            @ [quote] @ ''core'' @ [quote],
            [(''/root/ansible/inventory/hosts.ini'',
              File ([nl] @ ''[core]'' @ [nl] @ ''sw1 ansible_host=10.0.0.1'')),
             (''/root/ansible/inventory/hosts.ini.20250307_090501.bak'', File [])])
   \<and> map_of [(''/root/ansible/inventory'', Dir)] (INVENTORY_PATH ''/root/ansible'') = None
   \<and> dir_present [(''/root/ansible/inventory'', Dir)] (dirname (INVENTORY_PATH ''/root/ansible''))
   \<and> ansible_add_host ''/root/ansible'' [(''/root/ansible/inventory'', Dir)]
        sample_now ''sw1'' ''10.0.0.1'' ''core'' [] =
       Inr (''SUCCESS: Added host '' @ [quote] @ ''sw1'' @ [quote] @ '' (10.0.0.1) to group ''
            @ [quote] @ ''core'' @ [quote],
            [(''/root/ansible/inventory'', Dir),
             (''/root/ansible/inventory/hosts.ini'',
              File ([nl] @ ''[core]'' @ [nl] @ ''sw1 ansible_host=10.0.0.1''))])"
proof -
  let ?P = "''/root/ansible/inventory/hosts.ini''"
  let ?e = "[(?P, File [])] :: store"
  let ?d = "[(''/root/ansible/inventory'', Dir)] :: store"
  let ?e1 = "AList.update (INVENTORY_PATH ''/root/ansible'' @ ''.'' @ timestamp sample_now @ ''.bak'')
               (File []) ?e"
  have s1: "sanitize_input ''sw1'' = ''sw1''" by (simp add: sanitize_eval str_eval)
  have s2: "sanitize_input ''10.0.0.1'' = ''10.0.0.1''" by (simp add: sanitize_eval str_eval)
  have s3: "sanitize_input ''core'' = ''core''" by (simp add: sanitize_eval str_eval)
  have a: "''10.0.0.1'' \<noteq> []" by simp
  have nodup: "\<not> str_in (sanitize_input ''sw1'') (universal_newlines [])" by (simp add: s1)
  have nodup': "\<not> str_in (sanitize_input ''sw1'') []" by (simp add: s1)
  have fe: "map_of ?e (INVENTORY_PATH ''/root/ansible'') = Some (File [])"
    by (simp add: inventory_path_sample)
  have fd: "map_of ?d (INVENTORY_PATH ''/root/ansible'') = None"
    by (simp add: inventory_path_sample)
  have dp: "dir_present ?d (dirname (INVENTORY_PATH ''/root/ansible''))"
    unfolding inventory_path_sample by code_simp
  have doc1: "(map_of ?e (INVENTORY_PATH ''/root/ansible'') = Some (File [])
               \<and> universal_newlines [] = universal_newlines []
               \<and> map_of ?e (INVENTORY_PATH ''/root/ansible'' @ ''.'' @ timestamp sample_now @ ''.bak'') \<noteq> Some Dir
               \<and> ?e1 = AList.update (INVENTORY_PATH ''/root/ansible'' @ ''.'' @ timestamp sample_now @ ''.bak'') (File []) ?e)
              \<or> (map_of ?e (INVENTORY_PATH ''/root/ansible'') = None
                  \<and> dir_present ?e (dirname (INVENTORY_PATH ''/root/ansible''))
                  \<and> universal_newlines [] = [] \<and> ?e1 = ?e)"
    by (simp add: inventory_path_sample)
  have doc2: "(map_of ?d (INVENTORY_PATH ''/root/ansible'') = Some (File [])
               \<and> [] = universal_newlines []
               \<and> map_of ?d (INVENTORY_PATH ''/root/ansible'' @ ''.'' @ timestamp sample_now @ ''.bak'') \<noteq> Some Dir
               \<and> ?d = AList.update (INVENTORY_PATH ''/root/ansible'' @ ''.'' @ timestamp sample_now @ ''.bak'') (File []) ?d)
              \<or> (map_of ?d (INVENTORY_PATH ''/root/ansible'') = None
                  \<and> dir_present ?d (dirname (INVENTORY_PATH ''/root/ansible''))
                  \<and> ([] :: string) = [] \<and> ?d = ?d)"
    using fd dp by simp
  note t1 = add_host_edit [where hostname = "''sw1''" and ansible_host = "''10.0.0.1''"
      and group_header = "''[core]''" and group_name = "''core''"
      and host_line = "''sw1 ansible_host=10.0.0.1''" and extra_vars = "[]" and lines = "[[]]",
      OF a doc1 nodup]
  note t2 = add_host_edit [where hostname = "''sw1''" and ansible_host = "''10.0.0.1''"
      and group_header = "''[core]''" and group_name = "''core''"
      and host_line = "''sw1 ansible_host=10.0.0.1''" and extra_vars = "[]" and lines = "[[]]",
      OF a doc2 nodup']
  have r1: "ansible_add_host ''/root/ansible'' ?e sample_now ''sw1'' ''10.0.0.1'' ''core'' [] =
       Inr (''SUCCESS: Added host '' @ [quote] @ ''sw1'' @ [quote] @ '' (10.0.0.1) to group ''
            @ [quote] @ ''core'' @ [quote],
            [(?P, File ([nl] @ ''[core]'' @ [nl] @ ''sw1 ansible_host=10.0.0.1'')),
             (''/root/ansible/inventory/hosts.ini.20250307_090501.bak'', File [])])"
    using t1 by (simp add: s1 s2 s3 inventory_path_sample timestamp_sample str_eval)
  have r2: "ansible_add_host ''/root/ansible'' ?d sample_now ''sw1'' ''10.0.0.1'' ''core'' [] =
       Inr (''SUCCESS: Added host '' @ [quote] @ ''sw1'' @ [quote] @ '' (10.0.0.1) to group ''
            @ [quote] @ ''core'' @ [quote],
            [(''/root/ansible/inventory'', Dir),
             (?P, File ([nl] @ ''[core]'' @ [nl] @ ''sw1 ansible_host=10.0.0.1''))])"
    using t2 by (simp add: s1 s2 s3 inventory_path_sample str_eval)
  show ?thesis
    using a fe nodup r1 fd dp r2 by (intro conjI)
qed

text \<open>
  When neither the inventory file nor its directory is there, the write raises out of
  the tool: \<open>ansible_add_host\<close> does not create the directory and has no handler, unlike
  \<open>ansible_write_inventory\<close>.
\<close>

lemma add_host_without_directory:
  assumes a: "ansible_host \<noteq> []" and h: "sanitize_input hostname \<noteq> []"
    and f: "map_of fs (INVENTORY_PATH ANSIBLE_DIR) = None"
    and d: "\<not> dir_present fs (dirname (INVENTORY_PATH ANSIBLE_DIR))"
  shows "ansible_add_host ANSIBLE_DIR fs now hostname ansible_host group_name extra_vars =
           Inl (case map_of fs (dirname (INVENTORY_PATH ANSIBLE_DIR)) of
                  Some (File x) \<Rightarrow> NotADirectoryError (INVENTORY_PATH ANSIBLE_DIR)
                | _ \<Rightarrow> FileNotFoundError (INVENTORY_PATH ANSIBLE_DIR))"
proof -
  have hn: "hostname \<noteq> []" using h by (auto simp: sanitize_input_def)
  have w: "write_text fs (INVENTORY_PATH ANSIBLE_DIR) t =
           Inl (case map_of fs (dirname (INVENTORY_PATH ANSIBLE_DIR)) of
                  Some (File x) \<Rightarrow> NotADirectoryError (INVENTORY_PATH ANSIBLE_DIR)
                | _ \<Rightarrow> FileNotFoundError (INVENTORY_PATH ANSIBLE_DIR))" for t
    using f d by (simp add: write_text_def split: option.splits node.splits)
  show ?thesis
    unfolding ansible_add_host_def Let_def
    using a h hn f by (simp add: path_exists_def backup_file_absent w)
qed

lemma add_host_empty_store:
  "ansible_add_host ''/root/ansible'' [] sample_now ''sw1'' ''10.0.0.1'' ''core'' []
   = Inl (FileNotFoundError ''/root/ansible/inventory/hosts.ini'')"
  by code_simp

text \<open>
  C3 as stated fails when the header occurs twice: the specification inserts the record
  after the first header only, the code after each.
\<close>

theorem add_host_repeated_header:
  "spec_add_host_lines ''[core]'' ''sw1 ansible_host=10.0.0.1'' (split_on nl (''[core]'' @ [nl] @ ''a'' @ [nl] @ ''[core]''))
     = [''[core]'', ''sw1 ansible_host=10.0.0.1'', ''a'', ''[core]'']
   \<and> ansible_add_host ''/root/ansible''
        [(''/root/ansible/inventory/hosts.ini'', File (''[core]'' @ [nl] @ ''a'' @ [nl] @ ''[core]''))]
        sample_now ''sw1'' ''10.0.0.1'' ''core'' []
     = Inr (''SUCCESS: Added host '' @ [quote] @ ''sw1'' @ [quote] @ '' (10.0.0.1) to group ''
            @ [quote] @ ''core'' @ [quote],
            [(''/root/ansible/inventory/hosts.ini'',
              File (join_with [nl] [''[core]'', ''sw1 ansible_host=10.0.0.1'', ''a'', ''[core]'',
                                    ''sw1 ansible_host=10.0.0.1''])),
             (''/root/ansible/inventory/hosts.ini.20250307_090501.bak'',
              File (''[core]'' @ [nl] @ ''a'' @ [nl] @ ''[core]''))])"
proof -
  have s1: "sanitize_input ''sw1'' = ''sw1''" by (simp add: sanitize_eval str_eval)
  have s2: "sanitize_input ''10.0.0.1'' = ''10.0.0.1''" by (simp add: sanitize_eval str_eval)
  have s3: "sanitize_input ''core'' = ''core''" by (simp add: sanitize_eval str_eval)
  have p: "INVENTORY_PATH ''/root/ansible'' = ''/root/ansible/inventory/hosts.ini''"
    by (simp add: INVENTORY_PATH_def INVENTORY_DIR_def path_join_def str_eval)
  have ts: "timestamp sample_now = ''20250307_090501''" by code_simp
  have a: "spec_add_host_lines ''[core]'' ''sw1 ansible_host=10.0.0.1'' (split_on nl (''[core]'' @ [nl] @ ''a'' @ [nl] @ ''[core]''))
     = [''[core]'', ''sw1 ansible_host=10.0.0.1'', ''a'', ''[core]'']"
    by (simp add: spec_add_host_lines_def)
  have b: "ansible_add_host ''/root/ansible''
        [(''/root/ansible/inventory/hosts.ini'', File (''[core]'' @ [nl] @ ''a'' @ [nl] @ ''[core]''))]
        sample_now ''sw1'' ''10.0.0.1'' ''core'' []
     = Inr (''SUCCESS: Added host '' @ [quote] @ ''sw1'' @ [quote] @ '' (10.0.0.1) to group ''
            @ [quote] @ ''core'' @ [quote],
            [(''/root/ansible/inventory/hosts.ini'',
              File (join_with [nl] [''[core]'', ''sw1 ansible_host=10.0.0.1'', ''a'', ''[core]'',
                                    ''sw1 ansible_host=10.0.0.1''])),
             (''/root/ansible/inventory/hosts.ini.20250307_090501.bak'',
              File (''[core]'' @ [nl] @ ''a'' @ [nl] @ ''[core]''))])"
    by code_simp
  show ?thesis using a b by simp
qed

section \<open>Removing a host\<close>

lemma fold_remove_host_step:
  "fold (remove_host_step hn) ls (acc, g)
   = (acc @ filter (\<lambda>l. \<not> host_matches hn l) ls, g \<or> (\<exists>l \<in> set ls. host_matches hn l))"
proof (induction ls arbitrary: acc g)
  case Nil
  show ?case by simp
next
  case (Cons l ls)
  show ?case
  proof (cases "host_matches hn l")
    case True
    then have "remove_host_step hn l (acc, g) = (acc, True)"
      by (simp add: remove_host_step_def host_matches_def)
    then show ?thesis using True Cons.IH [of acc True] by simp
  next
    case False
    then have "remove_host_step hn l (acc, g) = (acc @ [l], g)"
      by (simp add: remove_host_step_def host_matches_def)
    then show ?thesis using False Cons.IH [of "acc @ [l]" g] by simp
  qed
qed

lemma readlines_Cons_hd: "readlines cs = l # ls \<Longrightarrow> c \<noteq> nl \<Longrightarrow> readlines (c # cs) = (c # l) # ls"
  by simp

lemma concat_readlines: "concat (readlines s) = s"
proof (induction s)
  case Nil
  show ?case by simp
next
  case (Cons c cs)
  show ?case
  proof (cases "c = nl")
    case True
    then show ?thesis using Cons.IH by simp
  next
    case False
    show ?thesis
    proof (cases "readlines cs")
      case Nil
      then have "cs = []" using Cons.IH by simp
      then show ?thesis using False by simp
    next
      case (Cons l ls)
      then have "readlines (c # cs) = (c # l) # ls" using False by simp
      then show ?thesis using Cons.IH Cons by simp
    qed
  qed
qed

lemma remove_host_run:
  assumes h: "hostname \<noteq> []"
    and cf: "lower confirm \<in> set [''yes'', ''true'', ''1'']"
    and f: "map_of fs (INVENTORY_PATH ANSIBLE_DIR) = Some (File c)"
    and b: "backup_file fs now (INVENTORY_PATH ANSIBLE_DIR) = Inr (B, fs1)"
    and w: "map_of fs1 (INVENTORY_PATH ANSIBLE_DIR) = Some (File c1)"
  shows "ansible_remove_host ANSIBLE_DIR fs now hostname confirm =
          (if \<exists>line \<in> set (readlines (universal_newlines c)). host_matches (sanitize_input hostname) line
           then Inr (''SUCCESS: Removed host '' @ [quote] @ sanitize_input hostname @ [quote]
                     @ '' from inventory.'',
                     AList.update (INVENTORY_PATH ANSIBLE_DIR)
                       (File (concat (filter (\<lambda>line. \<not> host_matches (sanitize_input hostname) line)
                                        (readlines (universal_newlines c))))) fs1)
           else Inr (''ERROR: Host '' @ [quote] @ sanitize_input hostname @ [quote]
                     @ '' not found in inventory.'', fs))"
proof -
  have wr: "write_text fs1 (INVENTORY_PATH ANSIBLE_DIR) t
            = Inr (AList.update (INVENTORY_PATH ANSIBLE_DIR) (File t) fs1)" for t
    using w by (simp add: write_text_def)
  show ?thesis
    unfolding ansible_remove_host_def Let_def fold_remove_host_step
    using h cf f
    by (simp add: path_exists_def read_text_def b wr del: set_simps)
qed

text \<open>
  C7 (amended). Called with a non-empty host name and an affirmative confirmation on an
  existing inventory file, \<open>ansible_remove_host\<close> deletes every line that, stripped of
  its surrounding whitespace, equals the sanitised host name or starts with it followed
  by a space. All other lines are kept as they are (newline included) and in order,
  after a backup of the old file. If no line matches, the answer is that the host was
  not found, and the store is left as it is.
\<close>

theorem remove_host_edit:
  assumes h: "hostname \<noteq> []"
    and cf: "lower confirm \<in> set [''yes'', ''true'', ''1'']"
    and f: "map_of fs (INVENTORY_PATH ANSIBLE_DIR) = Some (File c)"
    and bak: "map_of fs (INVENTORY_PATH ANSIBLE_DIR @ ''.'' @ timestamp now @ ''.bak'') \<noteq> Some Dir"
    and l: "lines = readlines (universal_newlines c)"
    and hn: "host = sanitize_input hostname"
  shows "concat lines = universal_newlines c
         \<and> ((\<exists>line \<in> set lines. host_matches host line) \<longrightarrow>
              ansible_remove_host ANSIBLE_DIR fs now hostname confirm =
                Inr (''SUCCESS: Removed host '' @ [quote] @ host @ [quote] @ '' from inventory.'',
                     AList.update (INVENTORY_PATH ANSIBLE_DIR)
                       (File (concat (filter (\<lambda>line. \<not> host_matches host line) lines)))
                       (AList.update (INVENTORY_PATH ANSIBLE_DIR @ ''.'' @ timestamp now @ ''.bak'')
                          (File c) fs)))
         \<and> (\<not> (\<exists>line \<in> set lines. host_matches host line) \<longrightarrow>
              ansible_remove_host ANSIBLE_DIR fs now hostname confirm =
                Inr (''ERROR: Host '' @ [quote] @ host @ [quote] @ '' not found in inventory.'', fs))"
proof -
  let ?P = "INVENTORY_PATH ANSIBLE_DIR"
  let ?B = "?P @ ''.'' @ timestamp now @ ''.bak''"
  have b: "backup_file fs now ?P = Inr (?B, AList.update ?B (File c) fs)"
    using f bak by (rule backup_file_file)
  have w: "map_of (AList.update ?B (File c) fs) ?P = Some (File c)"
    using f by (simp add: update_conv')
  note run = remove_host_run [OF h cf f b w]
  have 1: "concat lines = universal_newlines c"
    unfolding l by (rule concat_readlines)
  have 2: "ansible_remove_host ANSIBLE_DIR fs now hostname confirm =
                Inr (''SUCCESS: Removed host '' @ [quote] @ host @ [quote] @ '' from inventory.'',
                     AList.update ?P
                       (File (concat (filter (\<lambda>line. \<not> host_matches host line) lines)))
                       (AList.update ?B (File c) fs))"
    if "\<exists>line \<in> set lines. host_matches host line"
    using that unfolding run l hn by (simp only: if_True)
  have 3: "ansible_remove_host ANSIBLE_DIR fs now hostname confirm =
                Inr (''ERROR: Host '' @ [quote] @ host @ [quote] @ '' not found in inventory.'', fs)"
    if "\<not> (\<exists>line \<in> set lines. host_matches host line)"
    using that unfolding run l hn by (simp only: if_False)
  show ?thesis
    using 1 2 3 by (intro conjI impI)
qed


theorem remove_host_edit_witness:
  "''sw1'' \<noteq> [] \<and> lower ''yes'' \<in> set [''yes'', ''true'', ''1'']
   \<and> ansible_remove_host ''/root/ansible''
        [(''/root/ansible/inventory/hosts.ini'',
          File (''[core]'' @ [nl] @ ''sw1 ansible_host=10.0.0.1'' @ [nl] @ ''sw10 x=1'' @ [nl]))]
        sample_now ''sw1'' ''yes''
      = Inr (''SUCCESS: Removed host '' @ [quote] @ ''sw1'' @ [quote] @ '' from inventory.'',
             [(''/root/ansible/inventory/hosts.ini'', File (''[core]'' @ [nl] @ ''sw10 x=1'' @ [nl])),
              (''/root/ansible/inventory/hosts.ini.20250307_090501.bak'',
               File (''[core]'' @ [nl] @ ''sw1 ansible_host=10.0.0.1'' @ [nl] @ ''sw10 x=1'' @ [nl]))])"
proof -
  let ?c = "''[core]'' @ [nl] @ ''sw1 ansible_host=10.0.0.1'' @ [nl] @ ''sw10 x=1'' @ [nl]"
  let ?fs = "[(''/root/ansible/inventory/hosts.ini'', File ?c)]"
  have s1: "sanitize_input ''sw1'' = ''sw1''" by (simp add: sanitize_eval str_eval)
  have h: "''sw1'' \<noteq> []" by simp
  have f: "map_of ?fs (INVENTORY_PATH ''/root/ansible'') = Some (File ?c)"
    by (simp add: inventory_path_sample)
  have bak: "map_of ?fs (INVENTORY_PATH ''/root/ansible'' @ ''.'' @ timestamp sample_now @ ''.bak'') \<noteq> Some Dir"
    by (simp add: inventory_path_sample)
  note t = remove_host_edit [OF h affirmative_yes f bak refl refl]
  have m: "\<exists>line \<in> set (readlines (universal_newlines ?c)). host_matches (sanitize_input ''sw1'') line"
    by (simp add: s1 host_matches_def str_eval)
  have "ansible_remove_host ''/root/ansible'' ?fs sample_now ''sw1'' ''yes''
      = Inr (''SUCCESS: Removed host '' @ [quote] @ sanitize_input ''sw1'' @ [quote] @ '' from inventory.'',
             AList.update (INVENTORY_PATH ''/root/ansible'')
               (File (concat (filter (\<lambda>line. \<not> host_matches (sanitize_input ''sw1'') line)
                                (readlines (universal_newlines ?c)))))
               (AList.update (INVENTORY_PATH ''/root/ansible'' @ ''.'' @ timestamp sample_now @ ''.bak'')
                  (File ?c) ?fs))"
    using t m by blast
  then show ?thesis
    using affirmative_yes
    by (simp add: s1 inventory_path_sample timestamp_sample host_matches_def str_eval)
qed

text \<open>
  C7 as stated fails on an indented host line: the line neither equals the host nor
  starts with it, so the specification keeps it and reports that the host was not
  found; the code strips the line first and deletes it.
\<close>

theorem remove_host_indented_line:
  "\<not> (\<exists>line \<in> set (split_on nl (''[core]'' @ [nl] @ ''  sw1 ansible_host=10.0.0.1'')).
         spec_host_matches ''sw1'' line)
   \<and> ansible_remove_host ''/root/ansible''
        [(''/root/ansible/inventory/hosts.ini'',
          File (''[core]'' @ [nl] @ ''  sw1 ansible_host=10.0.0.1''))]
        sample_now ''sw1'' ''yes''
      = Inr (''SUCCESS: Removed host '' @ [quote] @ ''sw1'' @ [quote] @ '' from inventory.'',
             [(''/root/ansible/inventory/hosts.ini'', File (''[core]'' @ [nl])),
              (''/root/ansible/inventory/hosts.ini.20250307_090501.bak'',
               File (''[core]'' @ [nl] @ ''  sw1 ansible_host=10.0.0.1''))])"
proof -
  have s1: "sanitize_input ''sw1'' = ''sw1''" by (simp add: sanitize_eval str_eval)
  have a: "\<not> (\<exists>line \<in> set (split_on nl (''[core]'' @ [nl] @ ''  sw1 ansible_host=10.0.0.1'')).
         spec_host_matches ''sw1'' line)"
    by (simp add: spec_host_matches_def startswith_def)
  have b: "ansible_remove_host ''/root/ansible''
        [(''/root/ansible/inventory/hosts.ini'',
          File (''[core]'' @ [nl] @ ''  sw1 ansible_host=10.0.0.1''))]
        sample_now ''sw1'' ''yes''
      = Inr (''SUCCESS: Removed host '' @ [quote] @ ''sw1'' @ [quote] @ '' from inventory.'',
             [(''/root/ansible/inventory/hosts.ini'', File (''[core]'' @ [nl])),
              (''/root/ansible/inventory/hosts.ini.20250307_090501.bak'',
               File (''[core]'' @ [nl] @ ''  sw1 ansible_host=10.0.0.1''))])"
    by code_simp
  show ?thesis using a b by simp
qed

section \<open>Creating directories\<close>

lemma mkdir_all_other:
  "mkdir_all fs as = Inr fs' \<Longrightarrow> q \<notin> set as \<Longrightarrow> map_of fs' q = map_of fs q"
proof (induction as arbitrary: fs)
  case Nil
  then show ?case by simp
next
  case (Cons a as)
  from Cons.prems(2) have qa: "q \<noteq> a" and qas: "q \<notin> set as" by auto
  show ?case
  proof (cases "map_of fs a")
    case None
    then have "mkdir_all (AList.update a Dir fs) as = Inr fs'"
      using Cons.prems(1) by simp
    then have "map_of fs' q = map_of (AList.update a Dir fs) q"
      using qas by (rule Cons.IH)
    then show ?thesis using qa by (simp add: update_conv')
  next
    case (Some n)
    show ?thesis
    proof (cases n)
      case (File c)
      then show ?thesis using Cons.prems(1) Some by simp
    next
      case Dir
      then have "mkdir_all fs as = Inr fs'" using Cons.prems(1) Some by simp
      then show ?thesis using qas by (rule Cons.IH)
    qed
  qed
qed

lemma mkdir_all_preserves:
  "mkdir_all fs as = Inr fs' \<Longrightarrow> map_of fs q = Some n \<Longrightarrow> map_of fs' q = Some n"
proof (induction as arbitrary: fs)
  case Nil
  then show ?case by simp
next
  case (Cons a as)
  show ?case
  proof (cases "map_of fs a")
    case None
    then have "mkdir_all (AList.update a Dir fs) as = Inr fs'"
      using Cons.prems(1) by simp
    moreover have "map_of (AList.update a Dir fs) q = Some n"
      using None Cons.prems(2) by (auto simp: update_conv')
    ultimately show ?thesis by (rule Cons.IH)
  next
    case (Some m)
    show ?thesis
    proof (cases m)
      case (File c)
      then show ?thesis using Cons.prems(1) Some by simp
    next
      case Dir
      then have "mkdir_all fs as = Inr fs'" using Cons.prems(1) Some by simp
      then show ?thesis using Cons.prems(2) by (rule Cons.IH)
    qed
  qed
qed

lemma length_join_take: "length (join_with sep (take k xs)) \<le> length (join_with sep xs)"
proof (induction xs arbitrary: k)
  case Nil
  show ?case by simp
next
  case (Cons x xs)
  show ?case
  proof (cases k)
    case 0
    then show ?thesis by simp
  next
    case (Suc j)
    show ?thesis
    proof (cases "take j xs = []")
      case True
      have "take k (x # xs) = x # take j xs" using Suc by simp
      then have "join_with sep (take k (x # xs)) = x" unfolding True by simp
      moreover have "length x \<le> length (join_with sep (x # xs))"
        by (cases xs) simp_all
      ultimately show ?thesis by simp
    next
      case False
      then have ne: "xs \<noteq> []" by auto
      have "join_with sep (take k (x # xs)) = x @ sep @ join_with sep (take j xs)"
        using Suc False by (simp add: join_with_Cons)
      moreover have "join_with sep (x # xs) = x @ sep @ join_with sep xs"
        using ne by (rule join_with_Cons)
      ultimately show ?thesis using Cons.IH [of j] by simp
    qed
  qed
qed

lemma ancestors_length: "a \<in> set (ancestors d) \<Longrightarrow> length a \<le> length d"
proof -
  assume "a \<in> set (ancestors d)"
  then obtain k where "a = join_with ''/'' (take k (split_on CHR ''/'' d))"
    by (auto simp: ancestors_def Let_def)
  then have "length a \<le> length (join_with ''/'' (split_on CHR ''/'' d))"
    by (simp add: length_join_take)
  then show ?thesis by (simp add: join_split_on)
qed

lemma makedirs_other:
  "makedirs fs d = Inr fs' \<Longrightarrow> length d < length q \<Longrightarrow> map_of fs' q = map_of fs q"
proof -
  assume m: "makedirs fs d = Inr fs'" and l: "length d < length q"
  have "q \<notin> set (ancestors d)"
    using ancestors_length [of q d] l by auto
  moreover have "mkdir_all fs (ancestors d) = Inr fs'"
    using m by (simp add: makedirs_def split: if_splits)
  ultimately show ?thesis using mkdir_all_other by blast
qed

lemma mkdir_all_creates:
  "mkdir_all fs as = Inr fs' \<Longrightarrow> a \<in> set as \<Longrightarrow> map_of fs' a = Some Dir"
proof (induction as arbitrary: fs)
  case Nil
  then show ?case by simp
next
  case (Cons b bs)
  show ?case
  proof (cases "map_of fs b")
    case None
    then have m: "mkdir_all (AList.update b Dir fs) bs = Inr fs'"
      using Cons.prems(1) by simp
    show ?thesis
    proof (cases "a = b")
      case True
      have "map_of (AList.update b Dir fs) b = Some Dir" by (simp add: update_conv')
      then show ?thesis using m True mkdir_all_preserves by blast
    next
      case False
      then have "a \<in> set bs" using Cons.prems(2) by simp
      then show ?thesis using m Cons.IH by blast
    qed
  next
    case (Some n)
    show ?thesis
    proof (cases n)
      case (File c)
      then show ?thesis using Cons.prems(1) Some by simp
    next
      case Dir
      then have m: "mkdir_all fs bs = Inr fs'" using Cons.prems(1) Some by simp
      show ?thesis
      proof (cases "a = b")
        case True
        then show ?thesis using m Some Dir mkdir_all_preserves by blast
      next
        case False
        then have "a \<in> set bs" using Cons.prems(2) by simp
        then show ?thesis using m Cons.IH by blast
      qed
    qed
  qed
qed

lemma self_in_ancestors: "d \<noteq> [] \<Longrightarrow> d \<in> set (ancestors d)"
proof -
  assume d: "d \<noteq> []"
  let ?comps = "split_on CHR ''/'' d"
  have "?comps \<noteq> []" by (rule split_on_nonempty)
  then have k: "length ?comps \<in> set [1..<Suc (length ?comps)]"
    by (cases ?comps) auto
  have "join_with ''/'' (take (length ?comps) ?comps) = d"
    by (simp add: join_split_on)
  then have "d \<in> set (map (\<lambda>k. join_with ''/'' (take k ?comps)) [1..<Suc (length ?comps)])"
    using k by (metis (no_types, lifting) image_eqI list.set_map)
  then show ?thesis using d by (simp add: ancestors_def Let_def)
qed

lemma makedirs_creates: "makedirs fs d = Inr fs' \<Longrightarrow> path_isdir fs' d"
proof -
  assume m: "makedirs fs d = Inr fs'"
  then have d: "d \<noteq> []" by (auto simp: makedirs_def)
  have "mkdir_all fs (ancestors d) = Inr fs'"
    using m d by (simp add: makedirs_def)
  then have "map_of fs' d = Some Dir"
    using self_in_ancestors [OF d] by (rule mkdir_all_creates)
  then show ?thesis by (simp add: path_isdir_def)
qed

lemma makedirs_preserves:
  "makedirs fs d = Inr fs' \<Longrightarrow> map_of fs q = Some n \<Longrightarrow> map_of fs' q = Some n"
proof -
  assume m: "makedirs fs d = Inr fs'" and q: "map_of fs q = Some n"
  have "mkdir_all fs (ancestors d) = Inr fs'"
    using m by (simp add: makedirs_def split: if_splits)
  then show ?thesis using q by (rule mkdir_all_preserves)
qed

lemma rev_dropWhile_rev_take: "rev (dropWhile P (rev xs)) = take (length (dropWhile P (rev xs))) xs"
proof -
  have "rev xs = takeWhile P (rev xs) @ dropWhile P (rev xs)" by simp
  then have "xs = rev (dropWhile P (rev xs)) @ rev (takeWhile P (rev xs))"
    by (metis rev_append rev_rev_ident)
  then have "take (length (rev (dropWhile P (rev xs)))) xs = rev (dropWhile P (rev xs))"
    by (metis append_eq_conv_conj)
  then show ?thesis by simp
qed

lemma rstrip_by_take: "\<exists>n. rstrip_by P xs = take n xs"
  unfolding rstrip_by_def using rev_dropWhile_rev_take by blast

lemma dirname_take: "\<exists>n. dirname p = take n p"
proof -
  obtain n where n: "rev (dropWhile (\<lambda>c. c \<noteq> CHR ''/'') (rev p)) = take n p"
    using rev_dropWhile_rev_take by blast
  obtain m where m: "rstrip_by (\<lambda>c. c = CHR ''/'') (take n p) = take m (take n p)"
    using rstrip_by_take by blast
  have "dirname p = take n p \<or> dirname p = take m (take n p)"
    unfolding dirname_def Let_def n using m by auto
  then show ?thesis
    by (metis take_take)
qed

lemma dirname_length: "length (dirname p) \<le> length p"
  using dirname_take [of p] by auto

lemma dirname_proper: "dirname p \<noteq> p \<Longrightarrow> length (dirname p) < length p"
proof -
  assume ne: "dirname p \<noteq> p"
  obtain n where n: "dirname p = take n p" using dirname_take by blast
  then have "n < length p" using ne by (metis linorder_not_less take_all)
  then show ?thesis using n by simp
qed

section \<open>Writing a file\<close>

lemma write_file_run:
  assumes fp: "file_path \<noteq> []" and ct: "content \<noteq> []"
    and full: "full = normpath (path_join ANSIBLE_DIR (lstrip_by (\<lambda>c. c = CHR ''/'') file_path))"
    and inroot: "startswith full ANSIBLE_DIR"
    and mk: "makedirs fs (dirname full) = Inr fs1"
    and bk: "(lower create_backup \<in> set [''yes'', ''true'', ''1''] \<and> path_exists fs1 full
               \<and> backup_file fs1 now full = Inr (B, fs2))
             \<or> (\<not> (lower create_backup \<in> set [''yes'', ''true'', ''1''] \<and> path_exists fs1 full)
                 \<and> B = [] \<and> fs2 = fs1)"
    and w: "map_of fs2 full \<noteq> Some Dir"
    and pr: "map_of fs2 full \<noteq> None \<or> dir_present fs2 (dirname full)"
  shows "ansible_write_file ANSIBLE_DIR fs now file_path content create_backup =
           Inr (''SUCCESS: File written to '' @ lstrip_by (\<lambda>c. c = CHR ''/'') file_path
                @ (if B \<noteq> [] then [nl] @ ''Backup saved to: '' @ basename B else []),
                AList.update full (File content) fs2)"
proof -
  have wr: "write_text fs2 full content = Inr (AList.update full (File content) fs2)"
    using w pr by (rule write_text_ok)
  have b: "(if lower create_backup \<in> set [''yes'', ''true'', ''1''] \<and> path_exists fs1 full
            then backup_file fs1 now full else Inr ([], fs1)) = Inr (B, fs2)"
    using bk by auto
  have "ansible_write_file ANSIBLE_DIR fs now file_path content create_backup =
          (case makedirs fs (dirname full) of
             Inl e \<Rightarrow> Inl e
           | Inr fs1 \<Rightarrow>
              (case (if lower create_backup \<in> set [''yes'', ''true'', ''1''] \<and> path_exists fs1 full
                     then backup_file fs1 now full else Inr ([], fs1)) of
                 Inl e \<Rightarrow> Inl e
               | Inr (backup_path, fs2) \<Rightarrow>
                  (case write_text fs2 full content of
                     Inl e \<Rightarrow> Inr (''ERROR: Failed to write file: '' @ str_exn e, fs2)
                   | Inr fs3 \<Rightarrow>
                       Inr (''SUCCESS: File written to '' @ lstrip_by (\<lambda>c. c = CHR ''/'') file_path
                            @ (if backup_path \<noteq> []
                               then [nl] @ ''Backup saved to: '' @ basename backup_path
                               else []),
                            fs3))))"
    unfolding ansible_write_file_def Let_def full [symmetric]
    using fp ct inroot by (simp only: if_False if_True not_True_eq_False not_False_eq_True simp_thms)
  also have "\<dots> = Inr (''SUCCESS: File written to '' @ lstrip_by (\<lambda>c. c = CHR ''/'') file_path
                @ (if B \<noteq> [] then [nl] @ ''Backup saved to: '' @ basename B else []),
                AList.update full (File content) fs2)"
    unfolding mk sum.case b prod.case wr ..
  finally show ?thesis .
qed

text \<open>
  The time stamp of a backup name has the shape \<open>YYYYMMDD_HHMMSS\<close>: four digits, twice
  two digits, an underscore, three times two digits.
\<close>

lemma isdigit_digit_char: "n < 10 \<Longrightarrow> isdigit (digit_char n)"
  by (simp add: isdigit_def digit_char_def)

lemma str_of_nat_digits: "c \<in> set (str_of_nat n) \<Longrightarrow> isdigit c"
proof (induction n arbitrary: c rule: str_of_nat.induct)
  case (1 n)
  show ?case
  proof (cases "n < 10")
    case True
    then have "str_of_nat n = [digit_char n]" by (subst str_of_nat.simps) simp
    then show ?thesis using "1.prems" True isdigit_digit_char by simp
  next
    case False
    then have e: "str_of_nat n = str_of_nat (n div 10) @ [digit_char (n mod 10)]"
      by (subst str_of_nat.simps) simp
    have "isdigit (digit_char (n mod 10))" by (simp add: isdigit_digit_char)
    then show ?thesis using "1.prems" "1.IH" [OF False] unfolding e by auto
  qed
qed

lemma length_str_of_nat: "n < 10 ^ k \<Longrightarrow> 0 < k \<Longrightarrow> length (str_of_nat n) \<le> k"
proof (induction n arbitrary: k rule: str_of_nat.induct)
  case (1 n)
  show ?case
  proof (cases "n < 10")
    case True
    then have "str_of_nat n = [digit_char n]" by (subst str_of_nat.simps) simp
    then show ?thesis using "1.prems" by simp
  next
    case False
    then have e: "str_of_nat n = str_of_nat (n div 10) @ [digit_char (n mod 10)]"
      by (subst str_of_nat.simps) simp
    obtain j where k: "k = Suc j" using "1.prems"(2) by (cases k) auto
    have "j \<noteq> 0" using False "1.prems"(1) k by (cases j) auto
    then have j: "0 < j" by simp
    have "n div 10 < 10 ^ j"
      using "1.prems"(1) k by (simp add: less_mult_imp_div_less mult.commute)
    then have "length (str_of_nat (n div 10)) \<le> j"
      using "1.IH" [OF False _ j] by simp
    then show ?thesis unfolding e k by simp
  qed
qed

lemma zfill_shape:
  assumes "n < 10 ^ k" and "0 < k"
  shows "length (zfill k (str_of_nat n)) = k \<and> (\<forall>c \<in> set (zfill k (str_of_nat n)). isdigit c)"
proof -
  have l: "length (str_of_nat n) \<le> k" using assms by (rule length_str_of_nat)
  have "isdigit (CHR ''0'')" by (simp add: isdigit_def)
  then show ?thesis
    using l str_of_nat_digits by (auto simp: zfill_def)
qed

lemma timestamp_shape:
  assumes "dt_year now < 10000" and "dt_month now < 100" and "dt_day now < 100"
    and "dt_hour now < 100" and "dt_minute now < 100" and "dt_second now < 100"
  shows "\<exists>y mo d h mi s.
           timestamp now = y @ mo @ d @ ''_'' @ h @ mi @ s
           \<and> length y = 4 \<and> length mo = 2 \<and> length d = 2
           \<and> length h = 2 \<and> length mi = 2 \<and> length s = 2
           \<and> (\<forall>c \<in> set (y @ mo @ d @ h @ mi @ s). isdigit c)"
proof -
  define y where "y = zfill 4 (str_of_nat (dt_year now))"
  define mo where "mo = zfill 2 (str_of_nat (dt_month now))"
  define d where "d = zfill 2 (str_of_nat (dt_day now))"
  define h where "h = zfill 2 (str_of_nat (dt_hour now))"
  define mi where "mi = zfill 2 (str_of_nat (dt_minute now))"
  define s where "s = zfill 2 (str_of_nat (dt_second now))"
  have two: "length (zfill 2 (str_of_nat n)) = 2 \<and> (\<forall>c \<in> set (zfill 2 (str_of_nat n)). isdigit c)"
    if "n < 100" for n
    using that zfill_shape [of n 2] by simp
  have py: "length y = 4 \<and> (\<forall>c \<in> set y. isdigit c)"
    unfolding y_def using assms(1) zfill_shape [of "dt_year now" 4] by simp
  have pmo: "length mo = 2 \<and> (\<forall>c \<in> set mo. isdigit c)"
    unfolding mo_def using assms(2) by (rule two)
  have pd: "length d = 2 \<and> (\<forall>c \<in> set d. isdigit c)"
    unfolding d_def using assms(3) by (rule two)
  have ph: "length h = 2 \<and> (\<forall>c \<in> set h. isdigit c)"
    unfolding h_def using assms(4) by (rule two)
  have pmi: "length mi = 2 \<and> (\<forall>c \<in> set mi. isdigit c)"
    unfolding mi_def using assms(5) by (rule two)
  have ps: "length s = 2 \<and> (\<forall>c \<in> set s. isdigit c)"
    unfolding s_def using assms(6) by (rule two)
  have t: "timestamp now = y @ mo @ d @ ''_'' @ h @ mi @ s"
    unfolding timestamp_def y_def mo_def d_def h_def mi_def s_def by simp
  have all: "\<forall>c \<in> set (y @ mo @ d @ h @ mi @ s). isdigit c"
    using py pmo pd ph pmi ps by (simp add: ball_Un)
  have "timestamp now = y @ mo @ d @ ''_'' @ h @ mi @ s
           \<and> length y = 4 \<and> length mo = 2 \<and> length d = 2
           \<and> length h = 2 \<and> length mi = 2 \<and> length s = 2
           \<and> (\<forall>c \<in> set (y @ mo @ d @ h @ mi @ s). isdigit c)"
    using t py pmo pd ph pmi ps all by (intro conjI) simp_all
  then show ?thesis by (intro exI)
qed

text \<open>
  C2 (amended). Take a write of non-empty content with the backup enabled, to a path
  under the root whose parent directories exist or can be created. If the asset exists
  with content \<open>c\<close> (and no directory sits at the backup's name), the write first copies
  \<open>c\<close> to \<open><name>.<YYYYMMDD_HHMMSS>.bak\<close> beside the asset, then replaces the asset's
  content by the new content as it is; afterwards the backup holds exactly \<open>c\<close> and reads
  as the asset read before. If the asset does not exist, \<open>backup_file\<close> returns the
  empty name, the message names no backup and nothing appears at the backup's name.
\<close>

theorem write_file_backup_then_overwrite:
  assumes fp: "file_path \<noteq> []" and ct: "content \<noteq> []"
    and be: "lower create_backup \<in> set [''yes'', ''true'', ''1'']"
    and full: "full = normpath (path_join ANSIBLE_DIR (lstrip_by (\<lambda>c. c = CHR ''/'') file_path))"
    and inroot: "startswith full ANSIBLE_DIR"
    and mk: "makedirs fs (dirname full) = Inr fs1"
    and B: "backup_path = full @ ''.'' @ timestamp now @ ''.bak''"
  shows "(map_of fs full = Some (File c) \<and> map_of fs backup_path \<noteq> Some Dir \<longrightarrow>
            ansible_write_file ANSIBLE_DIR fs now file_path content create_backup =
              Inr (''SUCCESS: File written to '' @ lstrip_by (\<lambda>c. c = CHR ''/'') file_path
                   @ [nl] @ ''Backup saved to: '' @ basename full @ ''.'' @ timestamp now @ ''.bak'',
                   AList.update full (File content) (AList.update backup_path (File c) fs1))
            \<and> map_of (AList.update full (File content) (AList.update backup_path (File c) fs1))
                 backup_path = Some (File c)
            \<and> map_of (AList.update full (File content) (AList.update backup_path (File c) fs1))
                 full = Some (File content)
            \<and> read_text (AList.update full (File content) (AList.update backup_path (File c) fs1))
                 backup_path = read_text fs full)
         \<and> (map_of fs full = None \<and> dirname full \<noteq> full \<longrightarrow>
            backup_file fs1 now full = Inr ([], fs1)
            \<and> ansible_write_file ANSIBLE_DIR fs now file_path content create_backup =
              Inr (''SUCCESS: File written to '' @ lstrip_by (\<lambda>c. c = CHR ''/'') file_path,
                   AList.update full (File content) fs1)
            \<and> map_of (AList.update full (File content) fs1) backup_path = map_of fs backup_path)"
proof (intro conjI impI)
  assume a: "map_of fs full = Some (File c) \<and> map_of fs backup_path \<noteq> Some Dir"
  have ne: "backup_path \<noteq> full" unfolding B by simp
  have len: "length (dirname full) < length backup_path"
    using dirname_length [of full] unfolding B by simp
  have f1: "map_of fs1 full = Some (File c)"
    using mk a by (auto intro: makedirs_preserves)
  have "map_of fs1 backup_path = map_of fs backup_path"
    using mk len by (rule makedirs_other)
  then have d1: "map_of fs1 (full @ ''.'' @ timestamp now @ ''.bak'') \<noteq> Some Dir"
    using a unfolding B by simp
  have bf: "backup_file fs1 now full = Inr (backup_path, AList.update backup_path (File c) fs1)"
    unfolding B using f1 d1 by (rule backup_file_file)
  have ex: "path_exists fs1 full" using f1 by (simp add: path_exists_def)
  have w: "map_of (AList.update backup_path (File c) fs1) full \<noteq> Some Dir"
    using f1 ne by (simp add: update_conv')
  have pr: "map_of (AList.update backup_path (File c) fs1) full \<noteq> None
            \<or> dir_present (AList.update backup_path (File c) fs1) (dirname full)"
    using f1 ne by (simp add: update_conv')
  have bne: "backup_path \<noteq> []" unfolding B by simp
  have "ansible_write_file ANSIBLE_DIR fs now file_path content create_backup =
           Inr (''SUCCESS: File written to '' @ lstrip_by (\<lambda>c. c = CHR ''/'') file_path
                @ (if backup_path \<noteq> [] then [nl] @ ''Backup saved to: '' @ basename backup_path else []),
                AList.update full (File content) (AList.update backup_path (File c) fs1))"
    using fp ct full inroot mk _ w pr
  proof (rule write_file_run)
    show "(lower create_backup \<in> set [''yes'', ''true'', ''1''] \<and> path_exists fs1 full
            \<and> backup_file fs1 now full = Inr (backup_path, AList.update backup_path (File c) fs1))
          \<or> (\<not> (lower create_backup \<in> set [''yes'', ''true'', ''1''] \<and> path_exists fs1 full)
              \<and> backup_path = [] \<and> AList.update backup_path (File c) fs1 = fs1)"
      using be ex bf by blast
  qed
  moreover have "basename backup_path = basename full @ ''.'' @ timestamp now @ ''.bak''"
    unfolding B by (rule basename_backup)
  ultimately show "ansible_write_file ANSIBLE_DIR fs now file_path content create_backup =
              Inr (''SUCCESS: File written to '' @ lstrip_by (\<lambda>c. c = CHR ''/'') file_path
                   @ [nl] @ ''Backup saved to: '' @ basename full @ ''.'' @ timestamp now @ ''.bak'',
                   AList.update full (File content) (AList.update backup_path (File c) fs1))"
    using bne by simp
  show mb: "map_of (AList.update full (File content) (AList.update backup_path (File c) fs1))
                 backup_path = Some (File c)"
    using ne by (simp add: update_conv')
  show "map_of (AList.update full (File content) (AList.update backup_path (File c) fs1))
                 full = Some (File content)"
    by (simp add: update_conv')
  show "read_text (AList.update full (File content) (AList.update backup_path (File c) fs1))
                 backup_path = read_text fs full"
    using mb a by (simp add: read_text_def)
next
  assume a: "map_of fs full = None \<and> dirname full \<noteq> full"
  have ne: "backup_path \<noteq> full" unfolding B by simp
  have "length (dirname full) < length full"
    using a by (simp add: dirname_proper)
  then have "map_of fs1 full = map_of fs full"
    using mk by (simp add: makedirs_other)
  then have f1: "map_of fs1 full = None" using a by simp
  then show "backup_file fs1 now full = Inr ([], fs1)"
    by (rule backup_file_absent)
  have nex: "\<not> path_exists fs1 full" using f1 by (simp add: path_exists_def)
  have w: "map_of fs1 full \<noteq> Some Dir" using f1 by simp
  have "path_isdir fs1 (dirname full)" using mk by (rule makedirs_creates)
  then have pr: "map_of fs1 full \<noteq> None \<or> dir_present fs1 (dirname full)"
    by (simp add: dir_present_def)
  have "ansible_write_file ANSIBLE_DIR fs now file_path content create_backup =
           Inr (''SUCCESS: File written to '' @ lstrip_by (\<lambda>c. c = CHR ''/'') file_path
                @ (if ([] :: string) \<noteq> [] then [nl] @ ''Backup saved to: '' @ basename [] else []),
                AList.update full (File content) fs1)"
    using fp ct full inroot mk _ w pr
  proof (rule write_file_run)
    show "(lower create_backup \<in> set [''yes'', ''true'', ''1''] \<and> path_exists fs1 full
            \<and> backup_file fs1 now full = Inr ([], fs1))
          \<or> (\<not> (lower create_backup \<in> set [''yes'', ''true'', ''1''] \<and> path_exists fs1 full)
              \<and> ([] :: string) = [] \<and> fs1 = fs1)"
      using nex by simp
  qed
  then show "ansible_write_file ANSIBLE_DIR fs now file_path content create_backup =
              Inr (''SUCCESS: File written to '' @ lstrip_by (\<lambda>c. c = CHR ''/'') file_path,
                   AList.update full (File content) fs1)"
    by simp
  have len: "length (dirname full) < length backup_path"
    using dirname_length [of full] unfolding B by simp
  have "map_of fs1 backup_path = map_of fs backup_path"
    using mk len by (rule makedirs_other)
  then show "map_of (AList.update full (File content) fs1) backup_path = map_of fs backup_path"
    using ne by (simp add: update_conv')
qed

lemma asset_path_sample:
  "normpath (path_join ''/root/ansible'' (lstrip_by (\<lambda>c. c = CHR ''/'') ''a.txt'')) = ''/root/ansible/a.txt''"
  by (simp add: lstrip_by_def str_eval path_eval)

lemma other_path_sample:
  "normpath (path_join ''/root/ansible'' (lstrip_by (\<lambda>c. c = CHR ''/'') ''b.txt'')) = ''/root/ansible/b.txt''"
  by (simp add: lstrip_by_def str_eval path_eval)

theorem write_file_backup_then_overwrite_witness:
  "''a.txt'' \<noteq> [] \<and> ''new'' \<noteq> [] \<and> lower ''yes'' \<in> set [''yes'', ''true'', ''1'']
   \<and> map_of asset_store ''/root/ansible/a.txt'' = Some (File ''old'')
   \<and> ansible_write_file ''/root/ansible'' asset_store sample_now ''a.txt'' ''new'' ''yes''
      = Inr (''SUCCESS: File written to a.txt'' @ [nl] @ ''Backup saved to: a.txt.20250307_090501.bak'',
             [(''/root'', Dir), (''/root/ansible'', Dir), (''/root/ansible/a.txt'', File ''new''),
              (''/root/ansible/a.txt.20250307_090501.bak'', File ''old'')])
   \<and> map_of asset_store ''/root/ansible/b.txt'' = None
   \<and> ansible_write_file ''/root/ansible'' asset_store sample_now ''b.txt'' ''new'' ''yes''
      = Inr (''SUCCESS: File written to b.txt'',
             [(''/root'', Dir), (''/root/ansible'', Dir), (''/root/ansible/a.txt'', File ''old''),
              (''/root/ansible/b.txt'', File ''new'')])"
proof -
  have fp: "''a.txt'' \<noteq> []" and fp2: "''b.txt'' \<noteq> []" and ct: "''new'' \<noteq> []" by simp_all
  have inroot: "startswith ''/root/ansible/a.txt'' ''/root/ansible''"
    and inroot2: "startswith ''/root/ansible/b.txt'' ''/root/ansible''"
    by (simp_all add: startswith_def)
  have mk: "makedirs asset_store (dirname ''/root/ansible/a.txt'') = Inr asset_store"
    by code_simp
  have mk2: "makedirs asset_store (dirname ''/root/ansible/b.txt'') = Inr asset_store"
    by code_simp
  have a: "map_of asset_store ''/root/ansible/a.txt'' = Some (File ''old'')
           \<and> map_of asset_store (''/root/ansible/a.txt'' @ ''.'' @ timestamp sample_now @ ''.bak'') \<noteq> Some Dir"
    by (simp add: asset_store_def timestamp_sample)
  have b: "map_of asset_store ''/root/ansible/b.txt'' = None
           \<and> dirname ''/root/ansible/b.txt'' \<noteq> ''/root/ansible/b.txt''"
    by (simp add: asset_store_def dirname_def rstrip_by_def)
  note t1 = write_file_backup_then_overwrite
              [OF fp ct affirmative_yes asset_path_sample [symmetric] inroot mk refl, of "''old''"]
  note t2 = write_file_backup_then_overwrite
              [OF fp2 ct affirmative_yes other_path_sample [symmetric] inroot2 mk2 refl, of "''old''"]
  have r1: "ansible_write_file ''/root/ansible'' asset_store sample_now ''a.txt'' ''new'' ''yes''
      = Inr (''SUCCESS: File written to '' @ lstrip_by (\<lambda>c. c = CHR ''/'') ''a.txt''
                   @ [nl] @ ''Backup saved to: '' @ basename ''/root/ansible/a.txt'' @ ''.''
                   @ timestamp sample_now @ ''.bak'',
             AList.update ''/root/ansible/a.txt'' (File ''new'')
               (AList.update (''/root/ansible/a.txt'' @ ''.'' @ timestamp sample_now @ ''.bak'')
                  (File ''old'') asset_store))"
    using t1 a by blast
  have r2: "ansible_write_file ''/root/ansible'' asset_store sample_now ''b.txt'' ''new'' ''yes''
      = Inr (''SUCCESS: File written to '' @ lstrip_by (\<lambda>c. c = CHR ''/'') ''b.txt'',
             AList.update ''/root/ansible/b.txt'' (File ''new'') asset_store)"
    using t2 b by blast
  show ?thesis
    unfolding r1 r2
    using affirmative_yes
    by (simp add: asset_store_def timestamp_sample basename_def lstrip_by_def)
qed

text \<open>
  C2 as stated fails for empty content: the write is refused, the asset keeps its old
  content and no backup is made.
\<close>

theorem write_file_empty_content:
  "map_of asset_store ''/root/ansible/a.txt'' = Some (File ''old'')
   \<and> lower ''yes'' \<in> set [''yes'', ''true'', ''1'']
   \<and> ansible_write_file ''/root/ansible'' asset_store sample_now ''a.txt'' [] ''yes''
      = Inr (''ERROR: No content provided.'', asset_store)
   \<and> map_of asset_store ''/root/ansible/a.txt'' \<noteq> Some (File [])
   \<and> map_of asset_store (''/root/ansible/a.txt'' @ ''.'' @ timestamp sample_now @ ''.bak'') = None"
  using affirmative_yes
  by (simp add: ansible_write_file_def asset_store_def timestamp_sample)

section \<open>Writing the inventory\<close>

lemma dirname_child:
  assumes d: "d \<noteq> []" and l: "last d \<noteq> CHR ''/''" and n: "CHR ''/'' \<notin> set n"
  shows "dirname (d @ ''/'' @ n) = d"
proof -
  have "dirname (d @ ''/'' @ n) = dirname ((d @ ''/'') @ n)" by simp
  also have "\<dots> = dirname (d @ ''/'')" using n by (rule dirname_append)
  finally have 1: "dirname (d @ ''/'' @ n) = dirname (d @ ''/'')" .
  have hd: "rev (dropWhile (\<lambda>c. c \<noteq> CHR ''/'') (rev (d @ ''/''))) = d @ ''/''"
    by simp
  have "last d \<in> set (d @ ''/'')" using d by simp
  then have ns: "d @ ''/'' \<noteq> replicate (length (d @ ''/'')) CHR ''/''"
    using l by (metis in_set_replicate)
  obtain x xs where r: "rev d = x # xs" and x: "x = last d"
    using d by (cases "rev d") (auto simp: last_rev [symmetric] hd_rev)
  have "rstrip_by (\<lambda>c. c = CHR ''/'') (d @ ''/'') = rev (dropWhile (\<lambda>c. c = CHR ''/'') (rev d))"
    by (simp add: rstrip_by_def)
  also have "\<dots> = rev (rev d)"
  proof -
    have "dropWhile (\<lambda>c. c = CHR ''/'') (x # xs) = x # xs" using x l by simp
    then show ?thesis unfolding r by simp
  qed
  finally have rs: "rstrip_by (\<lambda>c. c = CHR ''/'') (d @ ''/'') = d" by simp
  have "dirname (d @ ''/'') = d"
    unfolding dirname_def Let_def hd using ns rs by simp
  then show ?thesis using 1 by simp
qed

lemma inventory_dir_shape:
  "INVENTORY_DIR ANSIBLE_DIR \<noteq> [] \<and> last (INVENTORY_DIR ANSIBLE_DIR) = CHR ''y''"
  by (simp add: INVENTORY_DIR_def path_join_def startswith_def)

lemma dirname_inventory_path: "dirname (INVENTORY_PATH ANSIBLE_DIR) = INVENTORY_DIR ANSIBLE_DIR"
proof -
  let ?D = "INVENTORY_DIR ANSIBLE_DIR"
  have d: "?D \<noteq> []" and l: "last ?D = CHR ''y''"
    using inventory_dir_shape by simp_all
  have "\<not> endswith ?D ''/''"
    using l endswith_single [of ?D "CHR ''/''"] by simp
  then have p: "INVENTORY_PATH ANSIBLE_DIR = ?D @ ''/'' @ ''hosts.ini''"
    using d by (simp add: INVENTORY_PATH_def path_join_def startswith_def)
  have "dirname (?D @ ''/'' @ ''hosts.ini'') = ?D"
    using d by (rule dirname_child) (simp_all add: l)
  then show ?thesis unfolding p .
qed

lemma inventory_path_longer: "length (INVENTORY_DIR ANSIBLE_DIR) < length (INVENTORY_PATH ANSIBLE_DIR)"
  by (simp add: INVENTORY_PATH_def path_join_def startswith_def)

text \<open>
  C10. Given non-empty content, \<open>ansible_write_inventory\<close> backs up the old inventory
  file (when there is one), creates the inventory directory and overwrites the file;
  only then does the validation command run, on the store that already holds the new
  content. When the command exits in time with a non-zero return code, the answer is
  the warning with the command's error output, and the store returned still holds the
  new content and the backup: nothing is rolled back.
\<close>

theorem write_inventory_keeps_content_on_failed_validation:
  assumes ct: "content \<noteq> []"
    and P: "P = INVENTORY_PATH ANSIBLE_DIR"
    and old: "(map_of fs P = Some (File c0)
                \<and> map_of fs (P @ ''.'' @ timestamp now @ ''.bak'') \<noteq> Some Dir
                \<and> fs1 = AList.update (P @ ''.'' @ timestamp now @ ''.bak'') (File c0) fs
                \<and> backup_path = P @ ''.'' @ timestamp now @ ''.bak'')
              \<or> (map_of fs P = None \<and> fs1 = fs \<and> backup_path = [])"
    and mk: "makedirs fs1 (INVENTORY_DIR ANSIBLE_DIR) = Inr fs2"
    and cmd: "cmd = [''ansible-inventory'', ''-i'', P, ''--list'']"
    and run: "engine cmd (AList.update P (File content) fs2) = Exits seconds out err rc"
    and intime: "int seconds \<le> 30"
    and failed: "rc \<noteq> 0"
  shows "ansible_write_inventory ANSIBLE_DIR engine fs now content =
           Inr (''WARNING: Inventory written but validation failed:'' @ [nl] @ err @ [nl, nl]
                @ ''Backup: '' @ basename backup_path,
                AList.update P (File content) fs2)
         \<and> map_of (AList.update P (File content) fs2) P = Some (File content)
         \<and> (map_of fs P = Some (File c0) \<longrightarrow>
              map_of (AList.update P (File content) fs2) (P @ ''.'' @ timestamp now @ ''.bak'')
                = Some (File c0))"
proof (intro conjI impI)
  have bk: "backup_file fs now P = Inr (backup_path, fs1)"
    using old backup_file_file [of fs P c0 now] backup_file_absent [of fs P now] by auto
  have ne: "P @ ''.'' @ timestamp now @ ''.bak'' \<noteq> P" by simp
  have p1: "map_of fs1 P = map_of fs P"
    using old ne by (auto simp: update_conv')
  have "map_of fs2 P \<noteq> Some Dir"
  proof (cases "map_of fs P")
    case None
    have "map_of fs2 P = map_of fs1 P"
      using mk inventory_path_longer unfolding P by (rule makedirs_other)
    then show ?thesis using None p1 by simp
  next
    case (Some n)
    then have "n = File c0" using old by auto
    then have "map_of fs1 P = Some (File c0)" using Some p1 by simp
    then have "map_of fs2 P = Some (File c0)" using mk makedirs_preserves by blast
    then show ?thesis by simp
  qed
  moreover have "map_of fs2 P \<noteq> None \<or> dir_present fs2 (dirname P)"
  proof -
    have "path_isdir fs2 (INVENTORY_DIR ANSIBLE_DIR)" using mk by (rule makedirs_creates)
    then have "dir_present fs2 (dirname P)"
      unfolding P dirname_inventory_path by (simp add: dir_present_def)
    then show ?thesis ..
  qed
  ultimately have wr: "write_text fs2 P content = Inr (AList.update P (File content) fs2)"
    by (rule write_text_ok)
  have sr: "subprocess_run (engine cmd (AList.update P (File content) fs2)) cmd 30
            = Inr \<lparr>stdout = out, stderr = err, returncode = rc\<rparr>"
    unfolding run using intime by (simp add: subprocess_run_def)
  show "ansible_write_inventory ANSIBLE_DIR engine fs now content =
           Inr (''WARNING: Inventory written but validation failed:'' @ [nl] @ err @ [nl, nl]
                @ ''Backup: '' @ basename backup_path,
                AList.update P (File content) fs2)"
    unfolding ansible_write_inventory_def Let_def P [symmetric] cmd [symmetric]
    using ct failed by (simp add: bk mk wr sr)
  show "map_of (AList.update P (File content) fs2) P = Some (File content)"
    by (simp add: update_conv')
  assume f: "map_of fs P = Some (File c0)"
  then have "map_of fs1 (P @ ''.'' @ timestamp now @ ''.bak'') = Some (File c0)"
    using old by (auto simp: update_conv')
  then have "map_of fs2 (P @ ''.'' @ timestamp now @ ''.bak'') = Some (File c0)"
    using mk makedirs_preserves by blast
  then show "map_of (AList.update P (File content) fs2) (P @ ''.'' @ timestamp now @ ''.bak'')
                = Some (File c0)"
    using ne by (simp add: update_conv')
qed

theorem write_inventory_keeps_content_on_failed_validation_witness:
  "''[core'' \<noteq> [] \<and> int (1::nat) \<le> 30 \<and> (4::int) \<noteq> 0
   \<and> ansible_write_inventory ''/root/ansible'' (\<lambda>cmd fs. Exits 1 [] ''parse error'' 4)
        sample_store sample_now ''[core''
      = Inr (''WARNING: Inventory written but validation failed:'' @ [nl] @ ''parse error''
             @ [nl, nl] @ ''Backup: hosts.ini.20250307_090501.bak'',
             [(''/root'', Dir), (''/root/ansible'', Dir), (''/root/ansible/inventory'', Dir),
              (''/root/ansible/inventory/hosts.ini'', File ''[core''),
              (''/root/ansible/inventory/hosts.ini.20250307_090501.bak'', File ''old'')])"
proof -
  let ?P = "''/root/ansible/inventory/hosts.ini''"
  let ?B = "''/root/ansible/inventory/hosts.ini.20250307_090501.bak''"
  let ?fs1 = "sample_store @ [(?B, File ''old'')]"
  have ct: "''[core'' \<noteq> []" by simp
  have P: "?P = INVENTORY_PATH ''/root/ansible''" by (simp add: inventory_path_sample)
  have old: "(map_of sample_store ?P = Some (File ''old'')
                \<and> map_of sample_store (?P @ ''.'' @ timestamp sample_now @ ''.bak'') \<noteq> Some Dir
                \<and> ?fs1 = AList.update (?P @ ''.'' @ timestamp sample_now @ ''.bak'') (File ''old'') sample_store
                \<and> ?B = ?P @ ''.'' @ timestamp sample_now @ ''.bak'')
              \<or> (map_of sample_store ?P = None \<and> ?fs1 = sample_store \<and> ?B = [])"
    by (simp add: sample_store_def timestamp_sample)
  have mk: "makedirs ?fs1 (INVENTORY_DIR ''/root/ansible'') = Inr ?fs1"
    by code_simp
  have run: "(\<lambda>cmd fs. Exits 1 [] ''parse error'' 4) [''ansible-inventory'', ''-i'', ?P, ''--list'']
               (AList.update ?P (File ''[core'') ?fs1) = Exits 1 [] ''parse error'' 4"
    by simp
  have intime: "int (1::nat) \<le> 30" by simp
  have failed: "(4::int) \<noteq> 0" by simp
  have bn: "basename ?B = ''hosts.ini.20250307_090501.bak''"
    by (simp add: basename_def)
  note t = write_inventory_keeps_content_on_failed_validation
             [OF ct P old mk refl run intime failed]
  have "ansible_write_inventory ''/root/ansible'' (\<lambda>cmd fs. Exits 1 [] ''parse error'' 4)
          sample_store sample_now ''[core''
        = Inr (''WARNING: Inventory written but validation failed:'' @ [nl] @ ''parse error''
               @ [nl, nl] @ ''Backup: '' @ basename ?B,
               AList.update ?P (File ''[core'') ?fs1)"
    using t by (rule conjunct1)
  then show ?thesis
    unfolding bn by (simp add: sample_store_def)
qed

end
